theory Spec2Isabelle
  imports Main "HOL-Library.Word"
begin

section \<open>Common types\<close>

text \<open>
  \<^verbatim>\<open>uint8_t\<close> is an 8-bit word and \<^verbatim>\<open>uintptr_t\<close> a 64-bit word (addition wraps).
  \<^verbatim>\<open>size_t\<close> values are natural numbers; those that are lengths of vectors that exist
  are below \<open>2^63\<close>, so that no arithmetic on them wraps.
  The C++ exceptions are values: every \<^verbatim>\<open>throw\<close> is an \<open>Inl\<close> branch.
\<close>

type_synonym byte = "8 word"
type_synonym uintptr_t = "64 word"

datatype exn = invalid_argument string | out_of_range string | length_error string | bad_alloc

section \<open>Pattern (include/memory/Pattern.h, src/memory/Pattern.cpp)\<close>

record Pattern =
  m_bytes :: "byte list"
  m_mask :: "bool list"
  m_name :: string

text \<open>\<^verbatim>\<open>Pattern::size()\<close> is the size of the byte vector.\<close>

definition size_of :: "Pattern \<Rightarrow> nat" where
  "size_of P = length (m_bytes P)"

text \<open>
  The constructor from a byte vector and a mask throws when the sizes differ and accepts
  every other pair, the pair of empty vectors included.
\<close>

definition Pattern_of_bytes :: "byte list \<Rightarrow> bool list \<Rightarrow> string \<Rightarrow> exn + Pattern" where
  "Pattern_of_bytes bytes msk name =
     (if length bytes \<noteq> length msk
      then Inl (invalid_argument ''Byte array and mask must have same size'')
      else Inr \<lparr>m_bytes = bytes, m_mask = msk, m_name = name\<rparr>)"

text \<open>
  Both constructors leave the two vectors with the same size; this is the class invariant
  under which \<^verbatim>\<open>m_mask[i]\<close> is a defined read for every \<^verbatim>\<open>i < m_bytes.size()\<close>.
\<close>

definition Pattern_inv :: "Pattern \<Rightarrow> bool" where
  "Pattern_inv P \<longleftrightarrow> length (m_bytes P) = length (m_mask P)"

text \<open>
  \<^verbatim>\<open>Pattern::isWildcard\<close>: the range check is on the mask, the answer is the negated mask bit.
\<close>

definition isWildcard :: "Pattern \<Rightarrow> nat \<Rightarrow> exn + bool" where
  "isWildcard P pos =
     (if pos \<ge> length (m_mask P) then Inl (out_of_range ''Position out of range'')
      else Inr (\<not> m_mask P ! pos))"

text \<open>
  \<^verbatim>\<open>Pattern::matches(const uint8_t* data)\<close>: the loop over \<^verbatim>\<open>i\<close>, returning false at the first
  fixed position that differs. The list \<open>data\<close> is the memory from the pointer onwards;
  \<^verbatim>\<open>data[i]\<close> is only defined for \<open>i < length data\<close>, which the callers guarantee
  by passing at least \<^verbatim>\<open>size()\<close> bytes.
\<close>

function matches_from :: "Pattern \<Rightarrow> byte list \<Rightarrow> nat \<Rightarrow> bool" where
  "matches_from P data i =
     (if i < length (m_bytes P)
      then (if m_mask P ! i \<and> data ! i \<noteq> m_bytes P ! i then False
            else matches_from P data (i + 1))
      else True)"
  by pat_completeness auto
termination
  by (relation "measure (\<lambda>(P, data, i). length (m_bytes P) - i)") auto

declare matches_from.simps [simp del]

definition matches :: "Pattern \<Rightarrow> byte list \<Rightarrow> bool" where
  "matches P data = matches_from P data 0"

section \<open>Pattern text form (src/memory/Pattern.cpp)\<close>

text \<open>
  \<^verbatim>\<open>std::isspace\<close> and \<^verbatim>\<open>std::isxdigit\<close> in the "C" locale, and the value of a
  hexadecimal digit.
\<close>

definition isspace :: "char \<Rightarrow> bool" where
  "isspace c \<longleftrightarrow> c = CHR '' '' \<or> (9 \<le> (of_char c :: nat) \<and> (of_char c :: nat) \<le> 13)"

definition isxdigit :: "char \<Rightarrow> bool" where
  "isxdigit c \<longleftrightarrow>
     (48 \<le> (of_char c :: nat) \<and> (of_char c :: nat) \<le> 57)
     \<or> (65 \<le> (of_char c :: nat) \<and> (of_char c :: nat) \<le> 70)
     \<or> (97 \<le> (of_char c :: nat) \<and> (of_char c :: nat) \<le> 102)"

definition digit_value :: "char \<Rightarrow> nat" where
  "digit_value c =
     (if (of_char c :: nat) \<le> 57 then of_char c - 48
      else if (of_char c :: nat) \<le> 70 then of_char c - 55
      else of_char c - 87)"

text \<open>
  \<^verbatim>\<open>iss >> token\<close>: skip the leading whitespace, then take the characters up to the next
  whitespace. The extraction fails (\<open>None\<close>) when no character is left; otherwise it
  gives the token and the rest of the stream.
\<close>

definition extract_token :: "string \<Rightarrow> (string \<times> string) option" where
  "extract_token iss =
     (let s = dropWhile isspace iss in
      if s = [] then None
      else Some (takeWhile (\<lambda>c. \<not> isspace c) s, dropWhile (\<lambda>c. \<not> isspace c) s))"

text \<open>
  \<^verbatim>\<open>std::stoul(token, nullptr, 16)\<close>, that is \<^verbatim>\<open>strtoul\<close> with base 16: leading whitespace,
  an optional sign, an optional \<^verbatim>\<open>0x\<close> or \<^verbatim>\<open>0X\<close> before a hexadecimal digit, then the
  longest run of hexadecimal digits; what follows the run is ignored. No digit is
  \<^verbatim>\<open>std::invalid_argument\<close>, a value beyond \<^verbatim>\<open>ULONG_MAX\<close> is \<^verbatim>\<open>std::out_of_range\<close>, and a
  minus sign negates in \<^verbatim>\<open>unsigned long\<close> (64 bits here). The value is accumulated as an
  unbounded integer, so that the range check is on the true value.
\<close>

type_synonym ulong = "64 word"

definition ULONG_MAX :: int where
  "ULONG_MAX = 2 ^ 64 - 1"

fun is_negative :: "string \<Rightarrow> bool" where
  "is_negative (c # r) = (c = CHR ''-'')"
| "is_negative [] = False"

fun skip_sign :: "string \<Rightarrow> string" where
  "skip_sign (c # r) = (if c = CHR ''-'' \<or> c = CHR ''+'' then r else c # r)"
| "skip_sign [] = []"

fun skip_0x :: "string \<Rightarrow> string" where
  "skip_0x (z # x # d # r) =
     (if z = CHR ''0'' \<and> (x = CHR ''x'' \<or> x = CHR ''X'') \<and> isxdigit d then d # r
      else z # x # d # r)"
| "skip_0x s = s"

definition stoul16 :: "string \<Rightarrow> exn + ulong" where
  "stoul16 str =
     (let s1 = dropWhile isspace str;
          negative = is_negative s1;
          s3 = skip_0x (skip_sign s1);
          digits = takeWhile isxdigit s3
      in if digits = [] then Inl (invalid_argument ''stoul'')
         else
           let v = foldl (\<lambda>acc c. acc * 16 + int (digit_value c)) 0 digits in
           if v > ULONG_MAX then Inl (out_of_range ''stoul'')
           else Inr (if negative then - of_int v else of_int v))"

text \<open>
  The loop of \<^verbatim>\<open>parsePatternString\<close> over the stream: the wildcard token appends a zero
  byte with mask false; any other token goes through \<^verbatim>\<open>stoul\<close> and
  \<^verbatim>\<open>static_cast<uint8_t>\<close> (the low eight bits), and both exceptions of \<^verbatim>\<open>stoul\<close> are
  rethrown as \<^verbatim>\<open>std::invalid_argument\<close>.
\<close>

function parse_loop :: "string \<Rightarrow> Pattern \<Rightarrow> exn + Pattern" where
  "parse_loop iss P =
     (case extract_token iss of
        None \<Rightarrow> Inr P
      | Some (token, rest) \<Rightarrow>
          if token = ''??''
          then parse_loop rest (P\<lparr>m_bytes := m_bytes P @ [0x00], m_mask := m_mask P @ [False]\<rparr>)
          else
            (case stoul16 token of
               Inr v \<Rightarrow>
                 parse_loop rest (P\<lparr>m_bytes := m_bytes P @ [ucast v], m_mask := m_mask P @ [True]\<rparr>)
             | Inl e \<Rightarrow> Inl (invalid_argument (''Invalid pattern token: '' @ token))))"
  by pat_completeness auto
termination
proof -
  have shorter: "length rest < length iss"
    if "extract_token iss = Some (token, rest)" for iss token rest
  proof -
    let ?s = "dropWhile isspace iss"
    from that have ne: "?s \<noteq> []" and rest: "rest = dropWhile (\<lambda>c. \<not> isspace c) ?s"
      by (auto simp: extract_token_def Let_def split: if_splits)
    from ne have "\<not> isspace (hd ?s)" by (rule hd_dropWhile)
    with ne have "rest = dropWhile (\<lambda>c. \<not> isspace c) (tl ?s)"
      unfolding rest by (cases ?s) auto
    then have "length rest \<le> length (tl ?s)" by (simp only: length_dropWhile_le)
    also from ne have "\<dots> < length ?s" by simp
    also have "\<dots> \<le> length iss" by (rule length_dropWhile_le)
    finally show ?thesis .
  qed
  show ?thesis
    by (relation "measure (\<lambda>(iss, P). length iss)") (auto dest: shorter)
qed

declare parse_loop.simps [simp del]

definition parsePatternString :: "string \<Rightarrow> Pattern \<Rightarrow> exn + Pattern" where
  "parsePatternString patternString P =
     (case parse_loop patternString P of
        Inl e \<Rightarrow> Inl e
      | Inr P' \<Rightarrow>
          if m_bytes P' = [] then Inl (invalid_argument ''Pattern string cannot be empty'')
          else Inr P')"

text \<open>The constructor from a string: the vectors start empty, the name is stored.\<close>

definition Pattern_of_string :: "string \<Rightarrow> string \<Rightarrow> exn + Pattern" where
  "Pattern_of_string patternString nm =
     parsePatternString patternString \<lparr>m_bytes = [], m_mask = [], m_name = nm\<rparr>"

text \<open>
  \<^verbatim>\<open>Pattern::toString\<close>. An \<^verbatim>\<open>int\<close> written with \<^verbatim>\<open>std::hex\<close> is its lower-case hexadecimal
  digits without leading zeros; \<^verbatim>\<open>setw(2)\<close> with \<^verbatim>\<open>setfill('0')\<close> pads it on the left to
  two characters. The width applies to that output only.
\<close>

definition hex_digit :: "nat \<Rightarrow> char" where
  "hex_digit d = ''0123456789abcdef'' ! d"

function to_hex :: "nat \<Rightarrow> string" where
  "to_hex n = (if n < 16 then [hex_digit n] else to_hex (n div 16) @ [hex_digit (n mod 16)])"
  by pat_completeness auto
termination
  by (relation "measure (\<lambda>n. n)") auto

declare to_hex.simps [simp del]

definition put_hex_w2 :: "nat \<Rightarrow> string" where
  "put_hex_w2 n = replicate (2 - length (to_hex n)) CHR ''0'' @ to_hex n"

function toString_from :: "Pattern \<Rightarrow> nat \<Rightarrow> string \<Rightarrow> string" where
  "toString_from P i oss =
     (if i < length (m_bytes P)
      then toString_from P (i + 1)
             (oss @ (if i > 0 then '' '' else [])
                  @ (if m_mask P ! i then put_hex_w2 (unat (m_bytes P ! i)) else ''??''))
      else oss)"
  by pat_completeness auto
termination
  by (relation "measure (\<lambda>(P, i, oss). length (m_bytes P) - i)") auto

declare toString_from.simps [simp del]

definition toString :: "Pattern \<Rightarrow> string" where
  "toString P = toString_from P 0 []"

text \<open>
  The vocabulary of the text grammar: the whitespace-delimited tokens of a string, the
  tokens \<^verbatim>\<open>[0-9A-Fa-f]{2}\<close> and \<^verbatim>\<open>??\<close> of the documented grammar, the tokens that begin
  with a hexadecimal digit after an optional sign, and the byte that the parser stores
  for a token it accepts.
\<close>

function tokens :: "string \<Rightarrow> string list" where
  "tokens iss =
     (case extract_token iss of
        None \<Rightarrow> []
      | Some (token, rest) \<Rightarrow> token # tokens rest)"
  by pat_completeness auto
termination
proof -
  have shorter: "length rest < length iss"
    if "extract_token iss = Some (token, rest)" for iss token rest
  proof -
    let ?s = "dropWhile isspace iss"
    from that have ne: "?s \<noteq> []" and rest: "rest = dropWhile (\<lambda>c. \<not> isspace c) ?s"
      by (auto simp: extract_token_def Let_def split: if_splits)
    from ne have "\<not> isspace (hd ?s)" by (rule hd_dropWhile)
    with ne have "rest = dropWhile (\<lambda>c. \<not> isspace c) (tl ?s)"
      unfolding rest by (cases ?s) auto
    then have "length rest \<le> length (tl ?s)" by (simp only: length_dropWhile_le)
    also from ne have "\<dots> < length ?s" by simp
    also have "\<dots> \<le> length iss" by (rule length_dropWhile_le)
    finally show ?thesis .
  qed
  show ?thesis
    by (relation "measure length") (auto dest: shorter)
qed

declare tokens.simps [simp del]

definition grammar_token :: "string \<Rightarrow> bool" where
  "grammar_token t \<longleftrightarrow> t = ''??'' \<or> (length t = 2 \<and> (\<forall>c \<in> set t. isxdigit c))"

text \<open>The text that \<^verbatim>\<open>toString\<close> writes for position \<open>j\<close>, without the separator.\<close>

definition toString_token :: "Pattern \<Rightarrow> nat \<Rightarrow> string" where
  "toString_token P j =
     (if m_mask P ! j then put_hex_w2 (unat (m_bytes P ! j)) else ''??'')"

definition begins_with_hex_number :: "string \<Rightarrow> bool" where
  "begins_with_hex_number t = (case skip_sign t of d # r \<Rightarrow> isxdigit d | [] \<Rightarrow> False)"

definition token_accepted :: "string \<Rightarrow> bool" where
  "token_accepted t \<longleftrightarrow> t = ''??'' \<or> \<not> isl (stoul16 t)"

definition token_byte :: "string \<Rightarrow> byte" where
  "token_byte t =
     (if t = ''??'' then 0x00 else case stoul16 t of Inr v \<Rightarrow> ucast v | Inl e \<Rightarrow> 0x00)"

section \<open>PatternScanner (include/scanner/PatternScanner.h, src/scanner/PatternScanner.cpp)\<close>

record PatternResult =
  address :: uintptr_t
  patternName :: string
  matchedBytes :: "byte list"

definition PatternResult_ctor :: "uintptr_t \<Rightarrow> string \<Rightarrow> PatternResult" where
  "PatternResult_ctor a n = \<lparr>address = a, patternName = n, matchedBytes = []\<rparr>"

text \<open>
  The interface \<^verbatim>\<open>IMemoryProvider\<close> is a record of its four virtual functions.
  \<^verbatim>\<open>readMemory\<close> returns \<open>None\<close> for false and \<open>Some bs\<close> for true, where \<open>bs\<close> are the
  bytes it stored at the start of the buffer.
\<close>

record IMemoryProvider =
  readMemory :: "uintptr_t \<Rightarrow> nat \<Rightarrow> byte list option"
  getModuleBase :: "string \<Rightarrow> uintptr_t"
  getModuleSize :: "string \<Rightarrow> nat"
  isValidAddress :: "uintptr_t \<Rightarrow> bool"

text \<open>The scanner owns a provider pointer, which may be null, and the algorithm switch.\<close>

record PatternScanner =
  m_memoryProvider :: "IMemoryProvider option"
  m_useBoyerMoore :: bool

definition PatternScanner_ctor :: "IMemoryProvider option \<Rightarrow> PatternScanner" where
  "PatternScanner_ctor memoryProvider =
     \<lparr>m_memoryProvider = memoryProvider, m_useBoyerMoore = True\<rparr>"

definition setUseBoyerMoore :: "bool \<Rightarrow> PatternScanner \<Rightarrow> PatternScanner" where
  "setUseBoyerMoore useBoyerMoore sc = sc\<lparr>m_useBoyerMoore := useBoyerMoore\<rparr>"

text \<open>
  \<^verbatim>\<open>readMemoryRegion\<close> starts with \<^verbatim>\<open>std::vector<uint8_t> buffer(size)\<close>, which can fail in
  two ways before anything is read: a size above \<^verbatim>\<open>max_size()\<close> (\<open>2^63 - 1\<close> for bytes
  on a 64-bit \<^verbatim>\<open>size_t\<close>) throws \<^verbatim>\<open>std::length_error\<close>, and a size the allocator cannot
  provide throws \<^verbatim>\<open>std::bad_alloc\<close>. The parameter \<open>heap\<close> is the largest block the
  allocator provides. Neither exception is caught on the way out of \<^verbatim>\<open>scanSingle\<close>, so the
  scan functions return \<open>Inl\<close> of the exception, or \<open>Inr\<close> of their boolean and the
  out-parameter \<open>result\<close> after the call. The later copies (the pattern's name, the
  matched bytes) are of objects that exist, in sizes the allocator has provided before.

  When the vector exists, the zero-filled buffer of \<open>sz\<close> bytes is handed to the
  provider; on success the buffer (always \<open>sz\<close> bytes) is the snapshot, on failure the
  snapshot is the empty vector.
\<close>

definition vector_max_size :: nat where
  "vector_max_size = 2 ^ 63 - 1"

definition readMemoryRegion ::
  "nat \<Rightarrow> IMemoryProvider \<Rightarrow> uintptr_t \<Rightarrow> nat \<Rightarrow> exn + byte list" where
  "readMemoryRegion heap prov addr sz =
     (if sz > vector_max_size
      then Inl (length_error ''cannot create std::vector larger than max_size()'')
      else if sz > heap then Inl bad_alloc
      else
        let buffer = replicate sz (0 :: byte) in
        case readMemory prov addr sz of
          Some bs \<Rightarrow> Inr (take sz bs @ drop (length bs) buffer)
        | None \<Rightarrow> Inr [])"

text \<open>
  The loop of \<^verbatim>\<open>naiveScan\<close> from position \<open>i\<close>: the offset of the first match, or
  \<open>None\<close> when the loop runs out. \<^verbatim>\<open>&memory[i]\<close> is the snapshot from offset \<open>i\<close> onwards.
\<close>

function naiveScan_from :: "Pattern \<Rightarrow> byte list \<Rightarrow> nat \<Rightarrow> nat option" where
  "naiveScan_from pattern memory i =
     (if i \<le> length memory - size_of pattern
      then (if matches pattern (drop i memory) then Some i
            else naiveScan_from pattern memory (i + 1))
      else None)"
  by pat_completeness auto
termination
  by (relation "measure (\<lambda>(pattern, memory, i). Suc (length memory - size_of pattern) - i)") auto

declare naiveScan_from.simps [simp del]

definition naiveScan ::
  "nat \<Rightarrow> IMemoryProvider \<Rightarrow> Pattern \<Rightarrow> uintptr_t \<Rightarrow> nat \<Rightarrow> PatternResult
     \<Rightarrow> exn + bool \<times> PatternResult" where
  "naiveScan heap prov pattern startAddress sz result =
     (case readMemoryRegion heap prov startAddress sz of
        Inl e \<Rightarrow> Inl e
      | Inr memory \<Rightarrow>
          if memory = [] then Inr (False, result)
          else
            let patternSize = size_of pattern in
            if patternSize > length memory then Inr (False, result)
            else
              case naiveScan_from pattern memory 0 of
                Some i \<Rightarrow>
                  Inr (True, result\<lparr>address := startAddress + of_nat i,
                                    patternName := m_name pattern,
                                    matchedBytes := take patternSize (drop i memory)\<rparr>)
              | None \<Rightarrow> Inr (False, result))"

definition boyerMooreScan ::
  "nat \<Rightarrow> IMemoryProvider \<Rightarrow> Pattern \<Rightarrow> uintptr_t \<Rightarrow> nat \<Rightarrow> PatternResult
     \<Rightarrow> exn + bool \<times> PatternResult" where
  "boyerMooreScan heap prov pattern startAddress sz result =
     naiveScan heap prov pattern startAddress sz result"

definition scanSingle ::
  "nat \<Rightarrow> PatternScanner \<Rightarrow> Pattern \<Rightarrow> uintptr_t \<Rightarrow> nat \<Rightarrow> PatternResult
     \<Rightarrow> exn + bool \<times> PatternResult" where
  "scanSingle heap sc pattern startAddress sz result =
     (case m_memoryProvider sc of
        None \<Rightarrow> Inr (False, result)
      | Some prov \<Rightarrow>
          if \<not> isValidAddress prov startAddress then Inr (False, result)
          else if m_useBoyerMoore sc then boyerMooreScan heap prov pattern startAddress sz result
          else naiveScan heap prov pattern startAddress sz result)"

section \<open>MockMemoryProvider (src/memory/MockMemoryProvider.cpp)\<close>

text \<open>
  The mock provider over a table of regions (the \<^verbatim>\<open>std::map\<close> in key order, as filled by
  \<^verbatim>\<open>addMemoryRegion\<close>) and a table of modules. \<^verbatim>\<open>lower_bound\<close> is the first region whose
  base is not below the address.
\<close>

definition lower_bound :: "(uintptr_t \<times> byte list) list \<Rightarrow> uintptr_t \<Rightarrow> (uintptr_t \<times> byte list) option" where
  "lower_bound regions addr = find (\<lambda>region. addr \<le> fst region) regions"

definition Mock_readMemory :: "(uintptr_t \<times> byte list) list \<Rightarrow> uintptr_t \<Rightarrow> nat \<Rightarrow> byte list option" where
  "Mock_readMemory regions addr sz =
     (case lower_bound regions addr of
        None \<Rightarrow> None
      | Some (regionStart, regionData) \<Rightarrow>
          if addr < regionStart \<or> addr + of_nat sz > regionStart + of_nat (length regionData)
          then None
          else Some (take sz (drop (unat (addr - regionStart)) regionData)))"

definition Mock_isValidAddress :: "(uintptr_t \<times> byte list) list \<Rightarrow> uintptr_t \<Rightarrow> bool" where
  "Mock_isValidAddress regions addr =
     list_ex (\<lambda>region. addr \<ge> fst region \<and> addr < fst region + of_nat (length (snd region))) regions"

definition Mock_lookup :: "(string \<times> 'a) list \<Rightarrow> 'a \<Rightarrow> string \<Rightarrow> 'a" where
  "Mock_lookup table dflt moduleName =
     (case map_of table moduleName of Some v \<Rightarrow> v | None \<Rightarrow> dflt)"

definition MockMemoryProvider ::
  "(uintptr_t \<times> byte list) list \<Rightarrow> (string \<times> uintptr_t) list \<Rightarrow> (string \<times> nat) list
     \<Rightarrow> IMemoryProvider" where
  "MockMemoryProvider regions moduleBases moduleSizes =
     \<lparr>readMemory = Mock_readMemory regions,
      getModuleBase = Mock_lookup moduleBases 0,
      getModuleSize = Mock_lookup moduleSizes 0,
      isValidAddress = Mock_isValidAddress regions\<rparr>"

text \<open>
  A small mock used as a concrete input below: one region of eight bytes at \<open>0x400000\<close>
  that holds \<open>8B 05 78 56 34 12\<close> from offset 1.
\<close>

definition scenario_provider :: IMemoryProvider where
  "scenario_provider =
     MockMemoryProvider [(0x400000, [0x90, 0x8B, 0x05, 0x78, 0x56, 0x34, 0x12, 0x90])]
       [(''supertux.exe'', 0x400000)] [(''supertux.exe'', 8)]"

definition scenario_scanner :: PatternScanner where
  "scenario_scanner = PatternScanner_ctor (Some scenario_provider)"

section \<open>The hook table (include/hooks/MinHookWrapper.h, src/hooks/MinHookWrapper.cpp)\<close>

datatype MHStatus =
    MH_OK
  | MH_ERROR_ALREADY_INITIALIZED
  | MH_ERROR_NOT_INITIALIZED
  | MH_ERROR_ALREADY_CREATED
  | MH_ERROR_NOT_CREATED
  | MH_ERROR_ENABLED
  | MH_ERROR_DISABLED
  | MH_ERROR_NOT_EXECUTABLE
  | MH_ERROR_UNSUPPORTED_FUNCTION
  | MH_ERROR_MEMORY_ALLOC
  | MH_ERROR_MEMORY_PROTECT
  | MH_ERROR_MODULE_NOT_FOUND
  | MH_ERROR_FUNCTION_NOT_FOUND

datatype HookType = HOOK_JMP | HOOK_CALL | HOOK_VTABLE

record HookInfo =
  name :: string
  targetAddress :: uintptr_t
  hookFunction :: uintptr_t
  originalFunction :: uintptr_t
  type :: HookType
  enabled :: bool

text \<open>The constructor of \<^verbatim>\<open>HookInfo\<close>: no original function yet, not enabled.\<close>

definition HookInfo_ctor :: "string \<Rightarrow> uintptr_t \<Rightarrow> uintptr_t \<Rightarrow> HookType \<Rightarrow> HookInfo" where
  "HookInfo_ctor n target hook t =
     \<lparr>name = n, targetAddress = target, hookFunction = hook, originalFunction = 0,
      type = t, enabled = False\<rparr>"

text \<open>
  The static members of \<^verbatim>\<open>MinHookWrapper\<close> are the state every operation takes and
  returns. \<open>static_init\<close> is their static initialisation.
\<close>

record MinHookWrapper =
  s_initialized :: bool
  s_lastError :: string
  s_hooks :: "HookInfo list"

definition static_init :: MinHookWrapper where
  "static_init = \<lparr>s_initialized = False, s_lastError = [], s_hooks = []\<rparr>"

text \<open>
  \<^verbatim>\<open>std::find_if\<close> returns an iterator: here the index of the first element that satisfies
  the predicate, and the length of the list for \<^verbatim>\<open>end()\<close>. \<open>erase\<close> is
  \<^verbatim>\<open>vector::erase\<close> at such an index.
\<close>

fun find_if :: "('a \<Rightarrow> bool) \<Rightarrow> 'a list \<Rightarrow> nat" where
  "find_if p [] = 0"
| "find_if p (x # xs) = (if p x then 0 else Suc (find_if p xs))"

definition erase :: "nat \<Rightarrow> 'a list \<Rightarrow> 'a list" where
  "erase it xs = take it xs @ drop (Suc it) xs"

definition initialize :: "MinHookWrapper \<Rightarrow> MHStatus \<times> MinHookWrapper" where
  "initialize st =
     (if s_initialized st
      then (MH_ERROR_ALREADY_INITIALIZED, st\<lparr>s_lastError := ''MinHook already initialized''\<rparr>)
      else (MH_OK, st\<lparr>s_initialized := True,
                      s_lastError := ''Initialized successfully (mock implementation)''\<rparr>))"

text \<open>
  \<^verbatim>\<open>createHook\<close>. The parameter \<open>original\<close> is the out-pointer: \<open>None\<close> for a null
  pointer, \<open>Some v\<close> for a pointer to a variable that holds \<open>v\<close>; the second component
  of the result is that variable after the call.
\<close>

definition createHook ::
  "uintptr_t \<Rightarrow> uintptr_t \<Rightarrow> uintptr_t option \<Rightarrow> MinHookWrapper
     \<Rightarrow> MHStatus \<times> uintptr_t option \<times> MinHookWrapper" where
  "createHook target hook original st =
     (if \<not> s_initialized st
      then (MH_ERROR_NOT_INITIALIZED, original, st\<lparr>s_lastError := ''MinHook not initialized''\<rparr>)
      else
        let it = find_if (\<lambda>h. targetAddress h = target) (s_hooks st) in
        if it \<noteq> length (s_hooks st)
        then (MH_ERROR_ALREADY_CREATED, original,
              st\<lparr>s_lastError := ''Hook already exists for this address''\<rparr>)
        else
          let hookInfo = (HookInfo_ctor [] target hook HOOK_JMP)\<lparr>originalFunction := target\<rparr> in
          (MH_OK,
           (if original \<noteq> None then Some (originalFunction hookInfo) else None),
           st\<lparr>s_hooks := s_hooks st @ [hookInfo],
              s_lastError := ''Hook created successfully (mock)''\<rparr>))"

definition enableHook :: "uintptr_t \<Rightarrow> MinHookWrapper \<Rightarrow> MHStatus \<times> MinHookWrapper" where
  "enableHook target st =
     (if \<not> s_initialized st
      then (MH_ERROR_NOT_INITIALIZED, st\<lparr>s_lastError := ''MinHook not initialized''\<rparr>)
      else
        let it = find_if (\<lambda>h. targetAddress h = target) (s_hooks st) in
        if it = length (s_hooks st)
        then (MH_ERROR_NOT_CREATED, st\<lparr>s_lastError := ''Hook not found''\<rparr>)
        else if enabled (s_hooks st ! it)
        then (MH_ERROR_ENABLED, st\<lparr>s_lastError := ''Hook already enabled''\<rparr>)
        else (MH_OK, st\<lparr>s_hooks := (s_hooks st)[it := (s_hooks st ! it)\<lparr>enabled := True\<rparr>],
                        s_lastError := ''Hook enabled successfully (mock)''\<rparr>))"

definition disableHook :: "uintptr_t \<Rightarrow> MinHookWrapper \<Rightarrow> MHStatus \<times> MinHookWrapper" where
  "disableHook target st =
     (if \<not> s_initialized st
      then (MH_ERROR_NOT_INITIALIZED, st\<lparr>s_lastError := ''MinHook not initialized''\<rparr>)
      else
        let it = find_if (\<lambda>h. targetAddress h = target) (s_hooks st) in
        if it = length (s_hooks st)
        then (MH_ERROR_NOT_CREATED, st\<lparr>s_lastError := ''Hook not found''\<rparr>)
        else if \<not> enabled (s_hooks st ! it)
        then (MH_ERROR_DISABLED, st\<lparr>s_lastError := ''Hook already disabled''\<rparr>)
        else (MH_OK, st\<lparr>s_hooks := (s_hooks st)[it := (s_hooks st ! it)\<lparr>enabled := False\<rparr>],
                        s_lastError := ''Hook disabled successfully (mock)''\<rparr>))"

text \<open>
  \<^verbatim>\<open>removeHook\<close> calls \<^verbatim>\<open>disableHook\<close> when the record it found is enabled, drops the
  status of that call, and erases at the iterator it found before.
\<close>

definition removeHook :: "uintptr_t \<Rightarrow> MinHookWrapper \<Rightarrow> MHStatus \<times> MinHookWrapper" where
  "removeHook target st =
     (if \<not> s_initialized st
      then (MH_ERROR_NOT_INITIALIZED, st\<lparr>s_lastError := ''MinHook not initialized''\<rparr>)
      else
        let it = find_if (\<lambda>h. targetAddress h = target) (s_hooks st) in
        if it = length (s_hooks st)
        then (MH_ERROR_NOT_CREATED, st\<lparr>s_lastError := ''Hook not found''\<rparr>)
        else
          let st1 = (if enabled (s_hooks st ! it) then snd (disableHook target st) else st) in
          (MH_OK, st1\<lparr>s_hooks := erase it (s_hooks st1),
                      s_lastError := ''Hook removed successfully''\<rparr>))"

text \<open>
  \<^verbatim>\<open>uninitialize\<close>: the range-for over \<^verbatim>\<open>s_hooks\<close> visits the positions in order and
  disables every record that is enabled when it is visited; then the table is cleared.
\<close>

definition uninitialize_visit :: "MinHookWrapper \<Rightarrow> nat \<Rightarrow> MinHookWrapper" where
  "uninitialize_visit st i =
     (if enabled (s_hooks st ! i) then snd (disableHook (targetAddress (s_hooks st ! i)) st)
      else st)"

definition uninitialize :: "MinHookWrapper \<Rightarrow> MHStatus \<times> MinHookWrapper" where
  "uninitialize st =
     (if \<not> s_initialized st
      then (MH_ERROR_NOT_INITIALIZED, st\<lparr>s_lastError := ''MinHook not initialized''\<rparr>)
      else
        let st1 = foldl uninitialize_visit st [0 ..< length (s_hooks st)] in
        (MH_OK, st1\<lparr>s_hooks := [], s_initialized := False,
                    s_lastError := ''Uninitialized successfully''\<rparr>))"

text \<open>
  The reachable states of the hook table: the static members can only be changed through
  the six static operations, so a reachable state is the result of a finite sequence of
  calls from the static initialisation. \<^verbatim>\<open>FunctionHook\<close> only goes through these calls.
\<close>

datatype call =
    Initialize
  | Uninitialize
  | CreateHook uintptr_t uintptr_t "uintptr_t option"
  | EnableHook uintptr_t
  | DisableHook uintptr_t
  | RemoveHook uintptr_t

fun after_call :: "MinHookWrapper \<Rightarrow> call \<Rightarrow> MinHookWrapper" where
  "after_call st Initialize = snd (initialize st)"
| "after_call st Uninitialize = snd (uninitialize st)"
| "after_call st (CreateHook target hook original) = snd (snd (createHook target hook original st))"
| "after_call st (EnableHook target) = snd (enableHook target st)"
| "after_call st (DisableHook target) = snd (disableHook target st)"
| "after_call st (RemoveHook target) = snd (removeHook target st)"

definition run :: "call list \<Rightarrow> MinHookWrapper" where
  "run cs = foldl after_call static_init cs"

text \<open>
  The invariant of the hook table: no two records have the same target address, and
  there are no records while the engine is not initialised.
\<close>

definition table_inv :: "MinHookWrapper \<Rightarrow> bool" where
  "table_inv st \<longleftrightarrow>
     distinct (map targetAddress (s_hooks st)) \<and> (\<not> s_initialized st \<longrightarrow> s_hooks st = [])"

section \<open>FunctionHook (src/hooks/MinHookWrapper.cpp)\<close>

record FunctionHook =
  m_hook_name :: string
  m_targetAddress :: uintptr_t
  m_hookFunction :: uintptr_t
  m_originalFunction :: uintptr_t
  m_type :: HookType
  m_installed :: bool
  m_enabled :: bool

definition FunctionHook_ctor :: "string \<Rightarrow> uintptr_t \<Rightarrow> uintptr_t \<Rightarrow> HookType \<Rightarrow> FunctionHook" where
  "FunctionHook_ctor n targetAddr hookFn t =
     \<lparr>m_hook_name = n, m_targetAddress = targetAddr, m_hookFunction = hookFn,
      m_originalFunction = 0, m_type = t, m_installed = False, m_enabled = False\<rparr>"

text \<open>
  Each method returns its boolean, the object after the call and the static state after
  the call. \<^verbatim>\<open>install\<close> passes the address of \<^verbatim>\<open>m_originalFunction\<close> as the out-pointer.
\<close>

definition FunctionHook_install ::
  "FunctionHook \<Rightarrow> MinHookWrapper \<Rightarrow> bool \<times> FunctionHook \<times> MinHookWrapper" where
  "FunctionHook_install fh st =
     (if m_installed fh then (True, fh, st)
      else
        case createHook (m_targetAddress fh) (m_hookFunction fh) (Some (m_originalFunction fh)) st of
          (status, original, st') \<Rightarrow>
            let fh' = (case original of Some v \<Rightarrow> fh\<lparr>m_originalFunction := v\<rparr> | None \<Rightarrow> fh) in
            if status = MH_OK then (True, fh'\<lparr>m_installed := True\<rparr>, st')
            else (False, fh', st'))"

definition FunctionHook_enable ::
  "FunctionHook \<Rightarrow> MinHookWrapper \<Rightarrow> bool \<times> FunctionHook \<times> MinHookWrapper" where
  "FunctionHook_enable fh st =
     (if \<not> m_installed fh then (False, fh, st)
      else if m_enabled fh then (True, fh, st)
      else
        case enableHook (m_targetAddress fh) st of
          (status, st') \<Rightarrow>
            if status = MH_OK then (True, fh\<lparr>m_enabled := True\<rparr>, st')
            else (False, fh, st'))"




text \<open>
  A scenario used as a concrete input below: the engine is initialised, a hook on
  \<open>0x400000\<close> with routine \<open>0x401000\<close> is installed and then enabled.
\<close>

definition scenario_hook0 :: FunctionHook where
  "scenario_hook0 = FunctionHook_ctor ''health_hook'' 0x400000 0x401000 HOOK_JMP"

definition scenario_state0 :: MinHookWrapper where
  "scenario_state0 = snd (initialize static_init)"

definition scenario_hook1 :: FunctionHook where
  "scenario_hook1 = fst (snd (FunctionHook_install scenario_hook0 scenario_state0))"

definition scenario_state1 :: MinHookWrapper where
  "scenario_state1 = snd (snd (FunctionHook_install scenario_hook0 scenario_state0))"

definition scenario_hook2 :: FunctionHook where
  "scenario_hook2 = fst (snd (FunctionHook_enable scenario_hook1 scenario_state1))"

definition scenario_state2 :: MinHookWrapper where
  "scenario_state2 = snd (snd (FunctionHook_enable scenario_hook1 scenario_state1))"

section \<open>Pattern matching\<close>

lemma matches_from_iff:
  "matches_from P data i \<longleftrightarrow>
     (\<forall>j. i \<le> j \<and> j < length (m_bytes P) \<longrightarrow> m_mask P ! j \<longrightarrow> data ! j = m_bytes P ! j)"
proof (induction P data i rule: matches_from.induct)
  case (1 P data i)
  show ?case
  proof (cases "i < length (m_bytes P)")
    case False
    then have "matches_from P data i" by (subst matches_from.simps) simp
    moreover from False have "\<And>j. i \<le> j \<Longrightarrow> \<not> j < length (m_bytes P)" by simp
    ultimately show ?thesis by blast
  next
    case inb: True
    show ?thesis
    proof (cases "m_mask P ! i \<and> data ! i \<noteq> m_bytes P ! i")
      case True
      with inb have "\<not> matches_from P data i" by (subst matches_from.simps) simp
      moreover from True inb have
        "\<not> (\<forall>j. i \<le> j \<and> j < length (m_bytes P) \<longrightarrow> m_mask P ! j \<longrightarrow> data ! j = m_bytes P ! j)"
        by blast
      ultimately show ?thesis by blast
    next
      case False
      have step: "matches_from P data i = matches_from P data (i + 1)"
        using inb False by (subst matches_from.simps) auto
      have here: "m_mask P ! i \<longrightarrow> data ! i = m_bytes P ! i"
        using False by blast
      have split: "j = i \<or> i + 1 \<le> j" if "i \<le> j" for j
        using that by arith
      have up: "i \<le> j" if "i + 1 \<le> j" for j
        using that by arith
      have "(\<forall>j. i \<le> j \<and> j < length (m_bytes P) \<longrightarrow> m_mask P ! j \<longrightarrow> data ! j = m_bytes P ! j)
            \<longleftrightarrow> (\<forall>j. i + 1 \<le> j \<and> j < length (m_bytes P) \<longrightarrow> m_mask P ! j \<longrightarrow> data ! j = m_bytes P ! j)"
        using here split up by blast
      with step "1.IH" [OF inb False] show ?thesis by simp
    qed
  qed
qed

text \<open>
  C1. For a pattern \<open>P\<close> and a buffer \<open>B\<close> of at least \<open>size_of P\<close> bytes, \<open>matches P B\<close>
  is true exactly when every fixed position (mask true) of \<open>B\<close> holds the stored byte;
  the wildcard positions do not affect the result: two buffers that agree on the fixed
  positions give the same answer.
\<close>

theorem matches_iff_fixed_positions:
  assumes "Pattern_inv P" and "size_of P \<le> length B"
  shows "(matches P B \<longleftrightarrow> (\<forall>i < size_of P. m_mask P ! i \<longrightarrow> B ! i = m_bytes P ! i))
       \<and> (\<forall>B'. size_of P \<le> length B'
              \<and> (\<forall>i < size_of P. m_mask P ! i \<longrightarrow> B' ! i = B ! i)
            \<longrightarrow> matches P B' = matches P B)"
  by (auto simp: matches_def matches_from_iff size_of_def)

theorem matches_iff_fixed_positions_witness:
  "Pattern_inv \<lparr>m_bytes = [0x48, 0x8B, 0x00, 0x90], m_mask = [True, True, False, True], m_name = ''w''\<rparr>
   \<and> size_of \<lparr>m_bytes = [0x48, 0x8B, 0x00, 0x90], m_mask = [True, True, False, True], m_name = ''w''\<rparr>
       \<le> length [0x48, 0x8B, 0x12, 0x90, 0x34 :: byte]
   \<and> matches \<lparr>m_bytes = [0x48, 0x8B, 0x00, 0x90], m_mask = [True, True, False, True], m_name = ''w''\<rparr>
       [0x48, 0x8B, 0x12, 0x90, 0x34]
   \<and> matches \<lparr>m_bytes = [0x48, 0x8B, 0x00, 0x90], m_mask = [True, True, False, True], m_name = ''w''\<rparr>
       [0x48, 0x8B, 0xFF, 0x90]
     = matches \<lparr>m_bytes = [0x48, 0x8B, 0x00, 0x90], m_mask = [True, True, False, True], m_name = ''w''\<rparr>
       [0x48, 0x8B, 0x12, 0x90, 0x34]"
proof -
  let ?P = "\<lparr>m_bytes = [0x48, 0x8B, 0x00, 0x90 :: byte], m_mask = [True, True, False, True], m_name = ''w''\<rparr>"
  let ?B = "[0x48, 0x8B, 0x12, 0x90, 0x34 :: byte]"
  let ?B' = "[0x48, 0x8B, 0xFF, 0x90 :: byte]"
  have inv: "Pattern_inv ?P" by (simp add: Pattern_inv_def)
  have len: "size_of ?P \<le> length ?B" by (simp add: size_of_def)
  have fixed: "\<forall>i < size_of ?P. m_mask ?P ! i \<longrightarrow> ?B ! i = m_bytes ?P ! i"
    by (simp add: size_of_def nth_Cons' less_Suc_eq numeral_eq_Suc)
  have agree: "size_of ?P \<le> length ?B' \<and> (\<forall>i < size_of ?P. m_mask ?P ! i \<longrightarrow> ?B' ! i = ?B ! i)"
    by (simp add: size_of_def nth_Cons' less_Suc_eq numeral_eq_Suc)
  note inst = matches_iff_fixed_positions [OF inv len]
  from inst fixed have m: "matches ?P ?B" by blast
  from inst agree have "matches ?P ?B' = matches ?P ?B" by blast
  with inv len m show ?thesis by simp
qed

section \<open>The hook table: invariant and lifecycle\<close>

lemma find_if_le: "find_if p xs \<le> length xs"
  by (induction xs) auto

lemma find_if_end_iff: "find_if p xs = length xs \<longleftrightarrow> (\<forall>x \<in> set xs. \<not> p x)"
proof (induction xs)
  case Nil
  then show ?case by simp
next
  case (Cons x xs)
  have "find_if p xs \<le> length xs" by (rule find_if_le)
  with Cons show ?case by auto
qed

lemma find_if_lt: "find_if p xs \<noteq> length xs \<Longrightarrow> find_if p xs < length xs"
  using find_if_le [of p xs] by simp

lemma find_if_sat: "find_if p xs \<noteq> length xs \<Longrightarrow> p (xs ! find_if p xs)"
  by (induction xs) (auto split: if_splits)


lemma map_target_set_enabled:
  "map targetAddress (xs[i := (xs ! i)\<lparr>enabled := b\<rparr>]) = map targetAddress xs"
proof (cases "i < length xs")
  case True
  then show ?thesis by (simp add: map_update list_update_same_conv)
next
  case False
  then have "length xs \<le> i" by simp
  then show ?thesis by (simp add: list_update_beyond)
qed


lemma erase_distinct:
  assumes d: "distinct (map f xs)"
  shows "distinct (map f (erase i xs))"
proof -
  let ?ys = "map f xs"
  have eq: "map f (erase i xs) = take i ?ys @ drop (Suc i) ?ys"
    by (simp add: erase_def take_map drop_map)
  from d have "distinct (take i ?ys @ drop i ?ys)" by simp
  then have disj: "set (take i ?ys) \<inter> set (drop i ?ys) = {}"
    by (simp only: distinct_append)
  have "set (drop (Suc i) ?ys) \<subseteq> set (drop i ?ys)"
    by (rule set_drop_subset_set_drop) simp
  with disj have "set (take i ?ys) \<inter> set (drop (Suc i) ?ys) = {}" by blast
  moreover from d have "distinct (take i ?ys)" and "distinct (drop (Suc i) ?ys)"
    by (rule distinct_take, rule distinct_drop)
  ultimately have "distinct (take i ?ys @ drop (Suc i) ?ys)"
    by (simp only: distinct_append)
  with eq show ?thesis by simp
qed



lemma disableHook_targets:
  "map targetAddress (s_hooks (snd (disableHook t st))) = map targetAddress (s_hooks st)"
  by (simp add: disableHook_def Let_def map_target_set_enabled)

lemma enableHook_targets:
  "map targetAddress (s_hooks (snd (enableHook t st))) = map targetAddress (s_hooks st)"
  by (simp add: enableHook_def Let_def map_target_set_enabled)

lemma disableHook_initialized:
  "s_initialized (snd (disableHook t st)) = s_initialized st"
  by (simp add: disableHook_def Let_def)

lemma enableHook_initialized:
  "s_initialized (snd (enableHook t st)) = s_initialized st"
  by (simp add: enableHook_def Let_def)

lemma table_inv_targets:
  assumes "table_inv st"
    and "map targetAddress (s_hooks st') = map targetAddress (s_hooks st)"
    and "s_initialized st' = s_initialized st"
  shows "table_inv st'"
proof -
  from assms(2) have "length (s_hooks st') = length (s_hooks st)"
    by (metis length_map)
  with assms show ?thesis by (auto simp: table_inv_def)
qed

lemma table_inv_disableHook: "table_inv st \<Longrightarrow> table_inv (snd (disableHook t st))"
  by (rule table_inv_targets [OF _ disableHook_targets disableHook_initialized])

lemma table_inv_enableHook: "table_inv st \<Longrightarrow> table_inv (snd (enableHook t st))"
  by (rule table_inv_targets [OF _ enableHook_targets enableHook_initialized])

lemma table_inv_initialize: "table_inv st \<Longrightarrow> table_inv (snd (initialize st))"
  by (auto simp: table_inv_def initialize_def)

lemma table_inv_uninitialize: "table_inv st \<Longrightarrow> table_inv (snd (uninitialize st))"
  by (cases "s_initialized st") (simp_all add: table_inv_def uninitialize_def Let_def)

lemma table_inv_createHook:
  assumes "table_inv st"
  shows "table_inv (snd (snd (createHook t h orig st)))"
proof (cases "s_initialized st \<and> find_if (\<lambda>h. targetAddress h = t) (s_hooks st) = length (s_hooks st)")
  case True
  then have "\<forall>x \<in> set (s_hooks st). targetAddress x \<noteq> t"
    by (simp add: find_if_end_iff)
  then have "t \<notin> set (map targetAddress (s_hooks st))" by auto
  with assms True show ?thesis
    by (simp add: table_inv_def createHook_def Let_def HookInfo_ctor_def)
next
  case False
  with assms show ?thesis
    by (auto simp: table_inv_def createHook_def Let_def)
qed

lemma removeHook_found:
  assumes "s_initialized st"
    and "find_if (\<lambda>h. targetAddress h = t) (s_hooks st) \<noteq> length (s_hooks st)"
  shows "removeHook t st =
           (MH_OK, st\<lparr>s_hooks := erase (find_if (\<lambda>h. targetAddress h = t) (s_hooks st))
                                   ((s_hooks st)[find_if (\<lambda>h. targetAddress h = t) (s_hooks st) :=
                                      (s_hooks st ! find_if (\<lambda>h. targetAddress h = t) (s_hooks st))\<lparr>enabled := False\<rparr>]),
                       s_lastError := ''Hook removed successfully''\<rparr>)"
proof -
  let ?it = "find_if (\<lambda>h. targetAddress h = t) (s_hooks st)"
  have same: "(s_hooks st)[?it := (s_hooks st ! ?it)\<lparr>enabled := False\<rparr>] = s_hooks st"
    if "\<not> enabled (s_hooks st ! ?it)"
    using that by (simp add: list_update_same_conv find_if_lt [OF assms(2)])
  show ?thesis
    using assms same by (simp add: removeHook_def disableHook_def Let_def)
qed

lemma erase_update: "erase i (xs[i := y]) = erase i xs"
  by (simp add: erase_def)

lemma removeHook_found_hooks:
  assumes "s_initialized st"
    and "find_if (\<lambda>h. targetAddress h = t) (s_hooks st) \<noteq> length (s_hooks st)"
  shows "fst (removeHook t st) = MH_OK"
    and "s_hooks (snd (removeHook t st)) =
           erase (find_if (\<lambda>h. targetAddress h = t) (s_hooks st)) (s_hooks st)"
    and "s_initialized (snd (removeHook t st))"
  using assms by (simp_all add: removeHook_found erase_update)

lemma removeHook_not_found:
  assumes "\<not> s_initialized st
             \<or> find_if (\<lambda>h. targetAddress h = t) (s_hooks st) = length (s_hooks st)"
  shows "s_hooks (snd (removeHook t st)) = s_hooks st"
    and "s_initialized (snd (removeHook t st)) = s_initialized st"
  using assms by (auto simp: removeHook_def Let_def)

lemma table_inv_removeHook:
  assumes "table_inv st"
  shows "table_inv (snd (removeHook t st))"
proof (cases "s_initialized st \<and> find_if (\<lambda>h. targetAddress h = t) (s_hooks st) \<noteq> length (s_hooks st)")
  case True
  with assms removeHook_found_hooks [of st t] show ?thesis
    by (simp add: table_inv_def erase_distinct)
next
  case False
  with assms removeHook_not_found [of st t] show ?thesis
    by (auto simp: table_inv_def)
qed

lemma table_inv_after_call: "table_inv st \<Longrightarrow> table_inv (after_call st c)"
  by (cases c)
    (simp_all add: table_inv_initialize table_inv_uninitialize table_inv_createHook
      table_inv_enableHook table_inv_disableHook table_inv_removeHook)

lemma table_inv_static_init: "table_inv static_init"
  by (simp add: table_inv_def static_init_def)

lemma table_inv_run: "table_inv (run cs)"
proof (induction cs rule: rev_induct)
  case Nil
  show ?case by (simp add: run_def table_inv_static_init)
next
  case (snoc c cs)
  then show ?case by (simp add: run_def table_inv_after_call)
qed


lemma distinct_map_nth_eq:
  assumes "distinct (map f xs)" and "x \<in> set xs" and "i < length xs" and "f (xs ! i) = f x"
  shows "xs ! i = x"
proof -
  from assms(1) have "inj_on f (set xs)" by (simp add: distinct_map)
  moreover from assms(3) have "xs ! i \<in> set xs" by simp
  ultimately show ?thesis using assms(2,4) by (simp add: inj_on_def)
qed

lemma record_found:
  assumes "table_inv st" and "r \<in> set (s_hooks st)"
  shows "s_initialized st"
    and "find_if (\<lambda>h. targetAddress h = targetAddress r) (s_hooks st) \<noteq> length (s_hooks st)"
    and "s_hooks st ! find_if (\<lambda>h. targetAddress h = targetAddress r) (s_hooks st) = r"
proof -
  let ?it = "find_if (\<lambda>h. targetAddress h = targetAddress r) (s_hooks st)"
  from assms show "s_initialized st" by (auto simp: table_inv_def)
  from assms(2) show ne: "?it \<noteq> length (s_hooks st)" by (auto simp: find_if_end_iff)
  from assms(1) have d: "distinct (map targetAddress (s_hooks st))" by (simp add: table_inv_def)
  from distinct_map_nth_eq [OF d assms(2) find_if_lt [OF ne] find_if_sat [OF ne]]
  show "s_hooks st ! ?it = r" .
qed

text \<open>
  C5. In every reachable state of the hook table no two records have the same target
  address; and for every target that has a record, a further \<^verbatim>\<open>createHook\<close> on it
  returns \<^verbatim>\<open>MH_ERROR_ALREADY_CREATED\<close>, writes nothing through the out-pointer and
  leaves the table, hence the existing record and its hook routine, as it was.
\<close>

theorem hook_table_one_record_per_target:
  "distinct (map targetAddress (s_hooks (run cs)))
   \<and> (\<forall>r \<in> set (s_hooks (run cs)).
         fst (createHook (targetAddress r) hook original (run cs)) = MH_ERROR_ALREADY_CREATED
       \<and> fst (snd (createHook (targetAddress r) hook original (run cs))) = original
       \<and> s_hooks (snd (snd (createHook (targetAddress r) hook original (run cs)))) = s_hooks (run cs))"
proof (intro conjI ballI)
  show "distinct (map targetAddress (s_hooks (run cs)))"
    using table_inv_run [of cs] by (simp add: table_inv_def)
next
  fix r assume r: "r \<in> set (s_hooks (run cs))"
  note found = record_found [OF table_inv_run r]
  show "fst (createHook (targetAddress r) hook original (run cs)) = MH_ERROR_ALREADY_CREATED"
    using found(1,2) by (simp add: createHook_def Let_def)
  show "fst (snd (createHook (targetAddress r) hook original (run cs))) = original"
    using found(1,2) by (simp add: createHook_def Let_def)
  show "s_hooks (snd (snd (createHook (targetAddress r) hook original (run cs)))) = s_hooks (run cs)"
    using found(1,2) by (simp add: createHook_def Let_def)
qed

lemma run_created:
  "run [Initialize, CreateHook 0x400000 0x401000 None] =
     \<lparr>s_initialized = True, s_lastError = ''Hook created successfully (mock)'',
      s_hooks = [\<lparr>name = [], targetAddress = 0x400000, hookFunction = 0x401000,
                  originalFunction = 0x400000, type = HOOK_JMP, enabled = False\<rparr>]\<rparr>"
  by (simp add: run_def static_init_def initialize_def createHook_def HookInfo_ctor_def Let_def)

theorem hook_table_one_record_per_target_witness:
  "map hookFunction (s_hooks (run [Initialize, CreateHook 0x400000 0x401000 None])) = [0x401000]
   \<and> fst (createHook 0x400000 0x402000 None (run [Initialize, CreateHook 0x400000 0x401000 None]))
       = MH_ERROR_ALREADY_CREATED
   \<and> map hookFunction
        (s_hooks (snd (snd (createHook 0x400000 0x402000 None
                              (run [Initialize, CreateHook 0x400000 0x401000 None])))))
       = [0x401000]"
proof -
  let ?cs = "[Initialize, CreateHook 0x400000 0x401000 None]"
  let ?r = "\<lparr>name = [], targetAddress = 0x400000, hookFunction = 0x401000,
             originalFunction = 0x400000, type = HOOK_JMP, enabled = False\<rparr>"
  have mem: "?r \<in> set (s_hooks (run ?cs))" by (simp add: run_created)
  from hook_table_one_record_per_target [of ?cs "0x402000" None] mem
  have "fst (createHook (targetAddress ?r) 0x402000 None (run ?cs)) = MH_ERROR_ALREADY_CREATED
      \<and> s_hooks (snd (snd (createHook (targetAddress ?r) 0x402000 None (run ?cs)))) = s_hooks (run ?cs)"
    by blast
  then show ?thesis by (simp add: run_created)
qed


lemma scenario_values:
  "scenario_state0 = \<lparr>s_initialized = True,
      s_lastError = ''Initialized successfully (mock implementation)'', s_hooks = []\<rparr>"
  "scenario_hook1 = \<lparr>m_hook_name = ''health_hook'', m_targetAddress = 0x400000,
      m_hookFunction = 0x401000, m_originalFunction = 0x400000, m_type = HOOK_JMP,
      m_installed = True, m_enabled = False\<rparr>"
  "scenario_state1 = \<lparr>s_initialized = True, s_lastError = ''Hook created successfully (mock)'',
      s_hooks = [\<lparr>name = [], targetAddress = 0x400000, hookFunction = 0x401000,
                  originalFunction = 0x400000, type = HOOK_JMP, enabled = False\<rparr>]\<rparr>"
  "scenario_hook2 = \<lparr>m_hook_name = ''health_hook'', m_targetAddress = 0x400000,
      m_hookFunction = 0x401000, m_originalFunction = 0x400000, m_type = HOOK_JMP,
      m_installed = True, m_enabled = True\<rparr>"
  "scenario_state2 = \<lparr>s_initialized = True, s_lastError = ''Hook enabled successfully (mock)'',
      s_hooks = [\<lparr>name = [], targetAddress = 0x400000, hookFunction = 0x401000,
                  originalFunction = 0x400000, type = HOOK_JMP, enabled = True\<rparr>]\<rparr>"
  by (simp_all add: scenario_state0_def scenario_hook0_def scenario_hook1_def scenario_state1_def
      scenario_hook2_def scenario_state2_def static_init_def initialize_def createHook_def
      enableHook_def HookInfo_ctor_def FunctionHook_ctor_def FunctionHook_install_def
      FunctionHook_enable_def Let_def)

text \<open>
  C6, a concrete run. After \<^verbatim>\<open>initialize\<close>, \<^verbatim>\<open>install\<close> and \<^verbatim>\<open>enable\<close> the record of the
  target is enabled; a second \<^verbatim>\<open>FunctionHook::enable\<close> returns true, not a failure,
  because of its guard on \<^verbatim>\<open>m_enabled\<close>, and changes nothing.
\<close>

theorem enable_enabled_hook_not_an_error:
  "fst (FunctionHook_install scenario_hook0 scenario_state0)
   \<and> fst (FunctionHook_enable scenario_hook1 scenario_state1)
   \<and> map targetAddress (s_hooks scenario_state2) = [m_targetAddress scenario_hook2]
   \<and> map enabled (s_hooks scenario_state2) = [True]
   \<and> FunctionHook_enable scenario_hook2 scenario_state2 = (True, scenario_hook2, scenario_state2)"
  by (simp add: scenario_values scenario_hook0_def createHook_def enableHook_def
      HookInfo_ctor_def FunctionHook_ctor_def FunctionHook_install_def FunctionHook_enable_def Let_def)

text \<open>
  C6, as the code has it. In every reachable state, \<^verbatim>\<open>MinHookWrapper::enableHook\<close> on a
  target whose record is enabled returns \<^verbatim>\<open>MH_ERROR_ENABLED\<close> and changes nothing but
  the last-error message: the table and the initialised flag stay as they were.
  \<^verbatim>\<open>FunctionHook::enable\<close> on a hook that is installed and enabled returns true without
  calling the engine, and leaves the object and the static state unchanged.
\<close>

theorem enable_when_already_enabled:
  "(\<forall>r \<in> set (s_hooks (run cs)). enabled r \<longrightarrow>
       enableHook (targetAddress r) (run cs)
         = (MH_ERROR_ENABLED, (run cs)\<lparr>s_lastError := ''Hook already enabled''\<rparr>))
   \<and> (m_installed fh \<and> m_enabled fh \<longrightarrow> FunctionHook_enable fh st = (True, fh, st))"
proof (intro conjI ballI impI)
  fix r assume r: "r \<in> set (s_hooks (run cs))" and en: "enabled r"
  note found = record_found [OF table_inv_run r]
  show "enableHook (targetAddress r) (run cs)
          = (MH_ERROR_ENABLED, (run cs)\<lparr>s_lastError := ''Hook already enabled''\<rparr>)"
    using found en by (simp add: enableHook_def Let_def)
next
  assume "m_installed fh \<and> m_enabled fh"
  then show "FunctionHook_enable fh st = (True, fh, st)"
    by (simp add: FunctionHook_enable_def)
qed

lemma run_enabled:
  "run [Initialize, CreateHook 0x400000 0x401000 None, EnableHook 0x400000] =
     \<lparr>s_initialized = True, s_lastError = ''Hook enabled successfully (mock)'',
      s_hooks = [\<lparr>name = [], targetAddress = 0x400000, hookFunction = 0x401000,
                  originalFunction = 0x400000, type = HOOK_JMP, enabled = True\<rparr>]\<rparr>"
  by (simp add: run_def static_init_def initialize_def createHook_def enableHook_def
      HookInfo_ctor_def Let_def)

theorem enable_when_already_enabled_witness:
  "map enabled (s_hooks (run [Initialize, CreateHook 0x400000 0x401000 None, EnableHook 0x400000]))
     = [True]
   \<and> enableHook 0x400000 (run [Initialize, CreateHook 0x400000 0x401000 None, EnableHook 0x400000])
     = (MH_ERROR_ENABLED,
        (run [Initialize, CreateHook 0x400000 0x401000 None, EnableHook 0x400000])
          \<lparr>s_lastError := ''Hook already enabled''\<rparr>)
   \<and> m_installed scenario_hook2 \<and> m_enabled scenario_hook2
   \<and> FunctionHook_enable scenario_hook2 scenario_state2 = (True, scenario_hook2, scenario_state2)"
proof -
  let ?cs = "[Initialize, CreateHook 0x400000 0x401000 None, EnableHook 0x400000]"
  let ?r = "\<lparr>name = [], targetAddress = 0x400000, hookFunction = 0x401000,
             originalFunction = 0x400000, type = HOOK_JMP, enabled = True\<rparr>"
  have mem: "?r \<in> set (s_hooks (run ?cs))" and en: "enabled ?r"
    by (simp_all add: run_enabled)
  have fh: "m_installed scenario_hook2 \<and> m_enabled scenario_hook2"
    by (simp add: scenario_values)
  note inst = enable_when_already_enabled [of ?cs scenario_hook2 scenario_state2]
  from inst mem en have "enableHook (targetAddress ?r) (run ?cs)
      = (MH_ERROR_ENABLED, (run ?cs)\<lparr>s_lastError := ''Hook already enabled''\<rparr>)"
    by blast
  moreover from inst fh
  have "FunctionHook_enable scenario_hook2 scenario_state2 = (True, scenario_hook2, scenario_state2)"
    by blast
  moreover have "map enabled (s_hooks (run ?cs)) = [True]" by (simp add: run_enabled)
  ultimately show ?thesis using fh by simp
qed







text \<open>
  C8. When \<^verbatim>\<open>createHook\<close> reports any status other than \<^verbatim>\<open>MH_OK\<close> during
  \<^verbatim>\<open>FunctionHook::install\<close> of a hook that is not installed, install returns false, the
  object is unchanged (so \<^verbatim>\<open>isInstalled()\<close> stays false), and no record is created: the
  table and the initialised flag are as before. Only the last-error message is set.
\<close>

theorem install_transactional:
  assumes "\<not> m_installed fh"
    and "fst (createHook (m_targetAddress fh) (m_hookFunction fh) (Some (m_originalFunction fh)) st)
           \<noteq> MH_OK"
  shows "\<not> fst (FunctionHook_install fh st)
       \<and> fst (snd (FunctionHook_install fh st)) = fh
       \<and> \<not> m_installed (fst (snd (FunctionHook_install fh st)))
       \<and> s_hooks (snd (snd (FunctionHook_install fh st))) = s_hooks st
       \<and> s_initialized (snd (snd (FunctionHook_install fh st))) = s_initialized st"
proof -
  let ?c = "createHook (m_targetAddress fh) (m_hookFunction fh) (Some (m_originalFunction fh)) st"
  have fail: "fst (snd ?c) = Some (m_originalFunction fh)
            \<and> s_hooks (snd (snd ?c)) = s_hooks st
            \<and> s_initialized (snd (snd ?c)) = s_initialized st"
    using assms(2) by (auto simp: createHook_def Let_def split: if_splits)
  obtain status original st' where c: "?c = (status, original, st')"
    by (cases ?c) auto
  with assms(2) fail have "status \<noteq> MH_OK" "original = Some (m_originalFunction fh)"
    "s_hooks st' = s_hooks st" "s_initialized st' = s_initialized st"
    by simp_all
  with assms(1) c show ?thesis
    by (simp add: FunctionHook_install_def)
qed

theorem install_transactional_witness:
  "\<not> m_installed (FunctionHook_ctor ''second'' 0x400000 0x402000 HOOK_JMP)
   \<and> fst (createHook 0x400000 0x402000 (Some 0) (run [Initialize, CreateHook 0x400000 0x401000 None]))
       = MH_ERROR_ALREADY_CREATED
   \<and> \<not> fst (FunctionHook_install (FunctionHook_ctor ''second'' 0x400000 0x402000 HOOK_JMP)
              (run [Initialize, CreateHook 0x400000 0x401000 None]))
   \<and> \<not> m_installed (fst (snd (FunctionHook_install
              (FunctionHook_ctor ''second'' 0x400000 0x402000 HOOK_JMP)
              (run [Initialize, CreateHook 0x400000 0x401000 None]))))
   \<and> map hookFunction (s_hooks (snd (snd (FunctionHook_install
              (FunctionHook_ctor ''second'' 0x400000 0x402000 HOOK_JMP)
              (run [Initialize, CreateHook 0x400000 0x401000 None]))))) = [0x401000]"
proof -
  let ?fh = "FunctionHook_ctor ''second'' 0x400000 0x402000 HOOK_JMP"
  let ?st = "run [Initialize, CreateHook 0x400000 0x401000 None]"
  have a: "\<not> m_installed ?fh" by (simp add: FunctionHook_ctor_def)
  have c: "fst (createHook 0x400000 0x402000 (Some 0) ?st) = MH_ERROR_ALREADY_CREATED"
    by (simp add: run_created createHook_def Let_def)
  then have b: "fst (createHook (m_targetAddress ?fh) (m_hookFunction ?fh)
                   (Some (m_originalFunction ?fh)) ?st) \<noteq> MH_OK"
    by (simp add: FunctionHook_ctor_def)
  from install_transactional [OF a b] a c show ?thesis
    by (simp add: run_created)
qed

text \<open>
  C10. The engine is not initialised in the static initial state and after every
  \<^verbatim>\<open>uninitialize\<close>; and in every state in which it is not initialised, \<^verbatim>\<open>createHook\<close>,
  \<^verbatim>\<open>enableHook\<close>, \<^verbatim>\<open>disableHook\<close> and \<^verbatim>\<open>removeHook\<close> return
  \<^verbatim>\<open>MH_ERROR_NOT_INITIALIZED\<close> and leave the hook table unchanged (they set the last-error
  message only).
\<close>

theorem not_initialized_operations:
  "\<not> s_initialized static_init
   \<and> \<not> s_initialized (snd (uninitialize st0))
   \<and> (\<not> s_initialized st \<longrightarrow>
         createHook target hook original st
           = (MH_ERROR_NOT_INITIALIZED, original, st\<lparr>s_lastError := ''MinHook not initialized''\<rparr>)
       \<and> enableHook target st
           = (MH_ERROR_NOT_INITIALIZED, st\<lparr>s_lastError := ''MinHook not initialized''\<rparr>)
       \<and> disableHook target st
           = (MH_ERROR_NOT_INITIALIZED, st\<lparr>s_lastError := ''MinHook not initialized''\<rparr>)
       \<and> removeHook target st
           = (MH_ERROR_NOT_INITIALIZED, st\<lparr>s_lastError := ''MinHook not initialized''\<rparr>)
       \<and> s_hooks (st\<lparr>s_lastError := ''MinHook not initialized''\<rparr>) = s_hooks st)"
proof (intro conjI impI)
  show "\<not> s_initialized static_init" by (simp add: static_init_def)
  show "\<not> s_initialized (snd (uninitialize st0))"
    by (cases "s_initialized st0") (simp_all add: uninitialize_def Let_def)
next
  assume "\<not> s_initialized st"
  then show "createHook target hook original st
           = (MH_ERROR_NOT_INITIALIZED, original, st\<lparr>s_lastError := ''MinHook not initialized''\<rparr>)"
    and "enableHook target st
           = (MH_ERROR_NOT_INITIALIZED, st\<lparr>s_lastError := ''MinHook not initialized''\<rparr>)"
    and "disableHook target st
           = (MH_ERROR_NOT_INITIALIZED, st\<lparr>s_lastError := ''MinHook not initialized''\<rparr>)"
    and "removeHook target st
           = (MH_ERROR_NOT_INITIALIZED, st\<lparr>s_lastError := ''MinHook not initialized''\<rparr>)"
    by (simp_all add: createHook_def enableHook_def disableHook_def removeHook_def)
next
  show "s_hooks (st\<lparr>s_lastError := ''MinHook not initialized''\<rparr>) = s_hooks st" by simp
qed

theorem not_initialized_operations_witness:
  "\<not> s_initialized static_init
   \<and> createHook 0x400000 0x401000 None static_init
       = (MH_ERROR_NOT_INITIALIZED, None, static_init\<lparr>s_lastError := ''MinHook not initialized''\<rparr>)
   \<and> enableHook 0x400000 static_init
       = (MH_ERROR_NOT_INITIALIZED, static_init\<lparr>s_lastError := ''MinHook not initialized''\<rparr>)
   \<and> disableHook 0x400000 static_init
       = (MH_ERROR_NOT_INITIALIZED, static_init\<lparr>s_lastError := ''MinHook not initialized''\<rparr>)
   \<and> removeHook 0x400000 static_init
       = (MH_ERROR_NOT_INITIALIZED, static_init\<lparr>s_lastError := ''MinHook not initialized''\<rparr>)"
  using not_initialized_operations [of static_init static_init "0x400000" "0x401000" None]
  by blast

section \<open>Scanning\<close>

lemma naiveScan_from_Some:
  "naiveScan_from P mem i = Some k \<longleftrightarrow>
     i \<le> k \<and> k \<le> length mem - size_of P \<and> matches P (drop k mem)
     \<and> (\<forall>j. i \<le> j \<and> j < k \<longrightarrow> \<not> matches P (drop j mem))"
proof (induction P mem i rule: naiveScan_from.induct)
  case (1 P mem i)
  show ?case
  proof (cases "i \<le> length mem - size_of P")
    case False
    then have "naiveScan_from P mem i = None" by (subst naiveScan_from.simps) simp
    with False show ?thesis by auto
  next
    case inb: True
    show ?thesis
    proof (cases "matches P (drop i mem)")
      case True
      with inb have eq: "naiveScan_from P mem i = Some i" by (subst naiveScan_from.simps) simp
      show ?thesis
      proof
        assume "naiveScan_from P mem i = Some k"
        with eq have "k = i" by simp
        with inb True show "i \<le> k \<and> k \<le> length mem - size_of P \<and> matches P (drop k mem)
          \<and> (\<forall>j. i \<le> j \<and> j < k \<longrightarrow> \<not> matches P (drop j mem))" by auto
      next
        assume r: "i \<le> k \<and> k \<le> length mem - size_of P \<and> matches P (drop k mem)
          \<and> (\<forall>j. i \<le> j \<and> j < k \<longrightarrow> \<not> matches P (drop j mem))"
        have "k = i"
        proof (rule ccontr)
          assume "k \<noteq> i"
          with r have "i < k" by simp
          with r have "\<not> matches P (drop i mem)" by blast
          with True show False by simp
        qed
        with eq show "naiveScan_from P mem i = Some k" by simp
      qed
    next
      case False
      with inb have step: "naiveScan_from P mem i = naiveScan_from P mem (i + 1)"
        by (subst naiveScan_from.simps) simp
      have below: "i + 1 \<le> k" if "i \<le> k" "matches P (drop k mem)" for k
      proof -
        from that False have "k \<noteq> i" by auto
        with that(1) show ?thesis by arith
      qed
      have rng: "(\<forall>j. i \<le> j \<and> j < k \<longrightarrow> \<not> matches P (drop j mem))
              \<longleftrightarrow> (\<forall>j. i + 1 \<le> j \<and> j < k \<longrightarrow> \<not> matches P (drop j mem))"
      proof
        assume a: "\<forall>j. i \<le> j \<and> j < k \<longrightarrow> \<not> matches P (drop j mem)"
        show "\<forall>j. i + 1 \<le> j \<and> j < k \<longrightarrow> \<not> matches P (drop j mem)"
        proof (intro allI impI)
          fix j assume "i + 1 \<le> j \<and> j < k"
          then have "i \<le> j \<and> j < k" by arith
          with a show "\<not> matches P (drop j mem)" by blast
        qed
      next
        assume a: "\<forall>j. i + 1 \<le> j \<and> j < k \<longrightarrow> \<not> matches P (drop j mem)"
        show "\<forall>j. i \<le> j \<and> j < k \<longrightarrow> \<not> matches P (drop j mem)"
        proof (intro allI impI)
          fix j assume j: "i \<le> j \<and> j < k"
          show "\<not> matches P (drop j mem)"
          proof (cases "j = i")
            case True
            with False show ?thesis by simp
          next
            case False
            with j have "i + 1 \<le> j \<and> j < k" by arith
            with a show ?thesis by blast
          qed
        qed
      qed
      from "1.IH" [OF inb False] step rng below show ?thesis
        by (metis add_leD1)
    qed
  qed
qed


lemma naiveScan_from_None:
  "naiveScan_from P mem i = None \<longleftrightarrow>
     (\<forall>j. i \<le> j \<and> j \<le> length mem - size_of P \<longrightarrow> \<not> matches P (drop j mem))"
proof (induction P mem i rule: naiveScan_from.induct)
  case (1 P mem i)
  show ?case
  proof (cases "i \<le> length mem - size_of P")
    case False
    then have "naiveScan_from P mem i = None" by (subst naiveScan_from.simps) simp
    with False show ?thesis by auto
  next
    case inb: True
    show ?thesis
    proof (cases "matches P (drop i mem)")
      case True
      with inb have "naiveScan_from P mem i = Some i" by (subst naiveScan_from.simps) simp
      with inb True show ?thesis by auto
    next
      case False
      with inb have step: "naiveScan_from P mem i = naiveScan_from P mem (i + 1)"
        by (subst naiveScan_from.simps) simp
      have "(\<forall>j. i \<le> j \<and> j \<le> length mem - size_of P \<longrightarrow> \<not> matches P (drop j mem))
          \<longleftrightarrow> (\<forall>j. i + 1 \<le> j \<and> j \<le> length mem - size_of P \<longrightarrow> \<not> matches P (drop j mem))"
      proof
        assume a: "\<forall>j. i \<le> j \<and> j \<le> length mem - size_of P \<longrightarrow> \<not> matches P (drop j mem)"
        show "\<forall>j. i + 1 \<le> j \<and> j \<le> length mem - size_of P \<longrightarrow> \<not> matches P (drop j mem)"
        proof (intro allI impI)
          fix j assume "i + 1 \<le> j \<and> j \<le> length mem - size_of P"
          then have "i \<le> j \<and> j \<le> length mem - size_of P" by arith
          with a show "\<not> matches P (drop j mem)" by blast
        qed
      next
        assume a: "\<forall>j. i + 1 \<le> j \<and> j \<le> length mem - size_of P \<longrightarrow> \<not> matches P (drop j mem)"
        show "\<forall>j. i \<le> j \<and> j \<le> length mem - size_of P \<longrightarrow> \<not> matches P (drop j mem)"
        proof (intro allI impI)
          fix j assume j: "i \<le> j \<and> j \<le> length mem - size_of P"
          show "\<not> matches P (drop j mem)"
          proof (cases "j = i")
            case True
            with False show ?thesis by simp
          next
            case False
            with j have "i + 1 \<le> j \<and> j \<le> length mem - size_of P" by arith
            with a show ?thesis by blast
          qed
        qed
      qed
      with "1.IH" [OF inb False] step show ?thesis by simp
    qed
  qed
qed

lemma readMemoryRegion_Inr:
  assumes "readMemoryRegion heap prov a n = Inr snap"
  shows "n \<le> vector_max_size" and "n \<le> heap"
    and "readMemory prov a n = None \<Longrightarrow> snap = []"
    and "readMemory prov a n \<noteq> None \<Longrightarrow> length snap = n"
  using assms by (auto simp: readMemoryRegion_def Let_def split: if_splits option.splits)

lemma scanSingle_naiveScan:
  assumes "m_memoryProvider sc = Some prov" and "isValidAddress prov start"
  shows "scanSingle heap sc P start n res = naiveScan heap prov P start n res"
  using assms by (simp add: scanSingle_def boyerMooreScan_def)

lemma scanSingle_vector_too_large:
  assumes "m_memoryProvider sc = Some prov" and "isValidAddress prov start"
    and "n > vector_max_size"
  shows "scanSingle heap sc P start n res
           = Inl (length_error ''cannot create std::vector larger than max_size()'')"
  using assms
  by (simp add: scanSingle_naiveScan [OF assms(1,2)] naiveScan_def readMemoryRegion_def)

lemma naiveScan_miss:
  assumes "readMemoryRegion heap prov start n = Inr snap"
    and "snap = [] \<or> size_of P > length snap"
  shows "naiveScan heap prov P start n res = Inr (False, res)"
  using assms by (auto simp: naiveScan_def Let_def)

lemma naiveScan_hit:
  assumes "readMemoryRegion heap prov start n = Inr snap"
    and "snap \<noteq> []" and "size_of P \<le> length snap"
    and "k \<le> length snap - size_of P" and "matches P (drop k snap)"
    and "\<forall>j < k. \<not> matches P (drop j snap)"
  shows "naiveScan heap prov P start n res
           = Inr (True, res\<lparr>address := start + of_nat k,
                             patternName := m_name P,
                             matchedBytes := take (size_of P) (drop k snap)\<rparr>)"
proof -
  from assms(4-6) have "naiveScan_from P snap 0 = Some k"
    by (simp add: naiveScan_from_Some)
  with assms(1-3) show ?thesis by (simp add: naiveScan_def Let_def)
qed

lemma naiveScan_none:
  assumes "readMemoryRegion heap prov start n = Inr snap"
    and "\<forall>k \<le> length snap - size_of P. \<not> matches P (drop k snap)"
  shows "naiveScan heap prov P start n res = Inr (False, res)"
proof -
  from assms(2) have "naiveScan_from P snap 0 = None"
    by (simp add: naiveScan_from_None)
  with assms(1) show ?thesis by (simp add: naiveScan_def Let_def)
qed

lemma first_match_exists:
  assumes "k \<le> L" and "matches P (drop k snap)"
  shows "\<exists>k' \<le> L. matches P (drop k' snap) \<and> (\<forall>j < k'. \<not> matches P (drop j snap))"
proof -
  let ?m = "LEAST i. matches P (drop i snap)"
  from assms(2) have m: "matches P (drop ?m snap)" by (rule LeastI)
  from assms(2) have "?m \<le> k" by (rule Least_le)
  with assms(1) have "?m \<le> L" by simp
  moreover have "\<forall>j < ?m. \<not> matches P (drop j snap)"
    using not_less_Least by blast
  ultimately show ?thesis using m by blast
qed

text \<open>
  C2. For a pattern of at least one position (the pattern invariant), a scanner with a
  provider, a valid start address and the snapshot \<open>snap\<close> that \<^verbatim>\<open>readMemoryRegion\<close>
  materialises: \<^verbatim>\<open>scanSingle\<close> returns false, no exception and the result untouched,
  whenever the pattern is longer than the snapshot. Otherwise the offsets
  \<open>0 \<le> k \<le> length snap - size_of P\<close> are tried in ascending order: the scan returns the
  lowest one at which the pattern matches, with address \<open>start + k\<close>, the pattern's name
  and the bytes at that offset; it finds one whenever some offset matches, and returns
  false when none does. The outcome is a function of the snapshot.
\<close>

theorem scanSingle_first_match:
  assumes "Pattern_inv P" and "0 < size_of P"
    and "m_memoryProvider sc = Some prov" and "isValidAddress prov start"
    and "readMemoryRegion heap prov start n = Inr snap"
  shows "(size_of P > length snap \<longrightarrow> scanSingle heap sc P start n res = Inr (False, res))
       \<and> (size_of P \<le> length snap \<longrightarrow>
            (\<forall>k. k \<le> length snap - size_of P \<and> matches P (drop k snap)
                   \<and> (\<forall>j < k. \<not> matches P (drop j snap)) \<longrightarrow>
                 scanSingle heap sc P start n res
                   = Inr (True, res\<lparr>address := start + of_nat k,
                                    patternName := m_name P,
                                    matchedBytes := take (size_of P) (drop k snap)\<rparr>))
          \<and> ((\<exists>k \<le> length snap - size_of P. matches P (drop k snap)) \<longrightarrow>
                (\<exists>k \<le> length snap - size_of P.
                   matches P (drop k snap) \<and> (\<forall>j < k. \<not> matches P (drop j snap))
                   \<and> scanSingle heap sc P start n res
                       = Inr (True, res\<lparr>address := start + of_nat k,
                                        patternName := m_name P,
                                        matchedBytes := take (size_of P) (drop k snap)\<rparr>)))
          \<and> ((\<forall>k \<le> length snap - size_of P. \<not> matches P (drop k snap)) \<longrightarrow>
                 scanSingle heap sc P start n res = Inr (False, res)))"
proof -
  note eq = scanSingle_naiveScan [OF assms(3,4), of heap P n res]
  have hit: "scanSingle heap sc P start n res
                   = Inr (True, res\<lparr>address := start + of_nat k,
                                    patternName := m_name P,
                                    matchedBytes := take (size_of P) (drop k snap)\<rparr>)"
    if "size_of P \<le> length snap" "k \<le> length snap - size_of P" "matches P (drop k snap)"
      "\<forall>j < k. \<not> matches P (drop j snap)" for k
  proof -
    from that(1) assms(2) have "snap \<noteq> []" by auto
    from naiveScan_hit [OF assms(5) this that] show ?thesis by (simp add: eq)
  qed
  show ?thesis
  proof (intro conjI impI allI)
    assume "size_of P > length snap"
    then show "scanSingle heap sc P start n res = Inr (False, res)"
      by (simp add: eq naiveScan_miss [OF assms(5)])
  next
    fix k
    assume "size_of P \<le> length snap"
      and "k \<le> length snap - size_of P \<and> matches P (drop k snap)
              \<and> (\<forall>j < k. \<not> matches P (drop j snap))"
    then show "scanSingle heap sc P start n res
                   = Inr (True, res\<lparr>address := start + of_nat k,
                                    patternName := m_name P,
                                    matchedBytes := take (size_of P) (drop k snap)\<rparr>)"
      by (simp add: hit)
  next
    assume le: "size_of P \<le> length snap"
      and "\<exists>k \<le> length snap - size_of P. matches P (drop k snap)"
    then obtain k where "k \<le> length snap - size_of P" "matches P (drop k snap)" by blast
    from first_match_exists [OF this] obtain k' where
      k': "k' \<le> length snap - size_of P" "matches P (drop k' snap)"
          "\<forall>j < k'. \<not> matches P (drop j snap)"
      by blast
    from hit [OF le k'] k'
    show "\<exists>k \<le> length snap - size_of P.
                   matches P (drop k snap) \<and> (\<forall>j < k. \<not> matches P (drop j snap))
                   \<and> scanSingle heap sc P start n res
                       = Inr (True, res\<lparr>address := start + of_nat k,
                                        patternName := m_name P,
                                        matchedBytes := take (size_of P) (drop k snap)\<rparr>)"
      by blast
  next
    assume "size_of P \<le> length snap"
      and "\<forall>k \<le> length snap - size_of P. \<not> matches P (drop k snap)"
    then show "scanSingle heap sc P start n res = Inr (False, res)"
      by (simp add: eq naiveScan_none [OF assms(5)])
  qed
qed

lemma scenario_provider_simps:
  "m_memoryProvider scenario_scanner = Some scenario_provider"
  "isValidAddress scenario_provider 0x400000"
  "readMemory scenario_provider 0x400000 8 = Some [0x90, 0x8B, 0x05, 0x78, 0x56, 0x34, 0x12, 0x90]"
  "readMemory scenario_provider 0x400000 4 = Some [0x90, 0x8B, 0x05, 0x78]"
  by (simp_all add: scenario_scanner_def PatternScanner_ctor_def scenario_provider_def
      MockMemoryProvider_def Mock_readMemory_def Mock_isValidAddress_def lower_bound_def)

lemma scenario_snapshots:
  "readMemoryRegion 4096 scenario_provider 0x400000 8
     = Inr [0x90, 0x8B, 0x05, 0x78, 0x56, 0x34, 0x12, 0x90]"
  "readMemoryRegion 4096 scenario_provider 0x400000 4 = Inr [0x90, 0x8B, 0x05, 0x78]"
  by (simp_all add: readMemoryRegion_def vector_max_size_def scenario_provider_simps)

lemma scenario_matches:
  "\<not> matches \<lparr>m_bytes = [0x8B, 0x05, 0, 0, 0, 0x12],
               m_mask = [True, True, False, False, False, True], m_name = ''health''\<rparr>
       (drop 0 [0x90, 0x8B, 0x05, 0x78, 0x56, 0x34, 0x12, 0x90])"
  "matches \<lparr>m_bytes = [0x8B, 0x05, 0, 0, 0, 0x12],
             m_mask = [True, True, False, False, False, True], m_name = ''health''\<rparr>
       (drop 1 [0x90, 0x8B, 0x05, 0x78, 0x56, 0x34, 0x12, 0x90])"
  "\<not> matches \<lparr>m_bytes = [0x05, 0x8B], m_mask = [True, True], m_name = ''absent''\<rparr>
       (drop 0 [0x90, 0x8B, 0x05, 0x78])"
  "\<not> matches \<lparr>m_bytes = [0x05, 0x8B], m_mask = [True, True], m_name = ''absent''\<rparr>
       (drop 1 [0x90, 0x8B, 0x05, 0x78])"
  "\<not> matches \<lparr>m_bytes = [0x05, 0x8B], m_mask = [True, True], m_name = ''absent''\<rparr>
       (drop 2 [0x90, 0x8B, 0x05, 0x78])"
  by (simp_all add: matches_def matches_from.simps)

theorem scanSingle_first_match_witness:
  "Pattern_inv \<lparr>m_bytes = [0x8B, 0x05, 0, 0, 0, 0x12],
                m_mask = [True, True, False, False, False, True], m_name = ''health''\<rparr>
   \<and> 0 < size_of \<lparr>m_bytes = [0x8B, 0x05, 0, 0, 0, 0x12],
                   m_mask = [True, True, False, False, False, True], m_name = ''health''\<rparr>
   \<and> m_memoryProvider scenario_scanner = Some scenario_provider
   \<and> isValidAddress scenario_provider 0x400000
   \<and> readMemoryRegion 4096 scenario_provider 0x400000 8
       = Inr [0x90, 0x8B, 0x05, 0x78, 0x56, 0x34, 0x12, 0x90]
   \<and> scanSingle 4096 scenario_scanner
        \<lparr>m_bytes = [0x8B, 0x05, 0, 0, 0, 0x12],
         m_mask = [True, True, False, False, False, True], m_name = ''health''\<rparr>
        0x400000 8 (PatternResult_ctor 0 [])
       = Inr (True, \<lparr>address = 0x400001, patternName = ''health'',
                     matchedBytes = [0x8B, 0x05, 0x78, 0x56, 0x34, 0x12]\<rparr>)
   \<and> readMemoryRegion 4096 scenario_provider 0x400000 4 = Inr [0x90, 0x8B, 0x05, 0x78]
   \<and> scanSingle 4096 scenario_scanner
        \<lparr>m_bytes = [0x8B, 0x05, 0, 0, 0, 0x12],
         m_mask = [True, True, False, False, False, True], m_name = ''health''\<rparr>
        0x400000 4 (PatternResult_ctor 0 [])
       = Inr (False, PatternResult_ctor 0 [])
   \<and> scanSingle 4096 scenario_scanner
        \<lparr>m_bytes = [0x05, 0x8B], m_mask = [True, True], m_name = ''absent''\<rparr>
        0x400000 4 (PatternResult_ctor 0 [])
       = Inr (False, PatternResult_ctor 0 [])"
proof -
  let ?P = "\<lparr>m_bytes = [0x8B, 0x05, 0, 0, 0, 0x12 :: byte],
             m_mask = [True, True, False, False, False, True], m_name = ''health''\<rparr>"
  let ?Q = "\<lparr>m_bytes = [0x05, 0x8B :: byte], m_mask = [True, True], m_name = ''absent''\<rparr>"
  let ?snap = "[0x90, 0x8B, 0x05, 0x78, 0x56, 0x34, 0x12, 0x90 :: byte]"
  let ?short = "[0x90, 0x8B, 0x05, 0x78 :: byte]"
  let ?res = "PatternResult_ctor 0 []"
  have inv: "Pattern_inv ?P" and pos: "0 < size_of ?P"
    by (simp_all add: Pattern_inv_def size_of_def)
  have invQ: "Pattern_inv ?Q" and posQ: "0 < size_of ?Q"
    by (simp_all add: Pattern_inv_def size_of_def)
  note prov = scenario_provider_simps(1,2)
  have ok: "size_of ?P \<le> length ?snap" by (simp add: size_of_def)
  have first: "(1::nat) \<le> length ?snap - size_of ?P \<and> matches ?P (drop 1 ?snap)
         \<and> (\<forall>j < 1. \<not> matches ?P (drop j ?snap))"
    using scenario_matches(1,2) by (simp add: size_of_def)
  from scanSingle_first_match [OF inv pos prov scenario_snapshots(1), of ?res] ok first
  have "scanSingle 4096 scenario_scanner ?P 0x400000 8 ?res
      = Inr (True, ?res\<lparr>address := 0x400000 + of_nat 1,
                  patternName := m_name ?P,
                  matchedBytes := take (size_of ?P) (drop 1 ?snap)\<rparr>)"
    by blast
  then have r1: "scanSingle 4096 scenario_scanner ?P 0x400000 8 ?res
       = Inr (True, \<lparr>address = 0x400001, patternName = ''health'',
                     matchedBytes = [0x8B, 0x05, 0x78, 0x56, 0x34, 0x12]\<rparr>)"
    by (simp add: PatternResult_ctor_def size_of_def)
  have longer: "size_of ?P > length ?short" by (simp add: size_of_def)
  from scanSingle_first_match [OF inv pos prov scenario_snapshots(2), of ?res] longer
  have r2: "scanSingle 4096 scenario_scanner ?P 0x400000 4 ?res = Inr (False, ?res)" by blast
  have okQ: "size_of ?Q \<le> length ?short" by (simp add: size_of_def)
  have none: "\<forall>k \<le> length ?short - size_of ?Q. \<not> matches ?Q (drop k ?short)"
  proof (intro allI impI)
    fix k :: nat assume "k \<le> length ?short - size_of ?Q"
    then have "k = 0 \<or> k = 1 \<or> k = 2" by (simp add: size_of_def) arith
    with scenario_matches(3,4,5) show "\<not> matches ?Q (drop k ?short)" by blast
  qed
  from scanSingle_first_match [OF invQ posQ prov scenario_snapshots(2), of ?res] okQ none
  have r3: "scanSingle 4096 scenario_scanner ?Q 0x400000 4 ?res = Inr (False, ?res)" by blast
  from inv pos r1 r2 r3 show ?thesis
    by (simp add: scenario_provider_simps scenario_snapshots)
qed

text \<open>
  C9. \<^verbatim>\<open>scanSingle\<close> with the switch set to the skip-accelerated scan returns what it
  returns with the switch set to the naive scan, for every scanner, pattern, start
  address, size and result. And what both return is the scan's answer: for a pattern of
  at least one position over a materialised snapshot, when some offset
  \<open>k \<le> length snap - size_of P\<close> matches, both report true with the address \<open>start + k\<close>
  of the lowest matching offset \<open>k\<close>, the pattern's name and the bytes there; when the
  pattern is longer than the snapshot or no offset matches, both report false.
\<close>

theorem scan_algorithms_agree:
  "scanSingle heap (setUseBoyerMoore True sc) P start n res
     = scanSingle heap (setUseBoyerMoore False sc) P start n res
   \<and> (Pattern_inv P \<and> 0 < size_of P
        \<and> m_memoryProvider sc = Some prov \<and> isValidAddress prov start
        \<and> readMemoryRegion heap prov start n = Inr snap \<longrightarrow>
       ((\<exists>k \<le> length snap - size_of P. size_of P \<le> length snap \<and> matches P (drop k snap)) \<longrightarrow>
          (\<exists>k \<le> length snap - size_of P.
             matches P (drop k snap) \<and> (\<forall>j < k. \<not> matches P (drop j snap))
             \<and> scanSingle heap (setUseBoyerMoore True sc) P start n res
                 = Inr (True, res\<lparr>address := start + of_nat k,
                                  patternName := m_name P,
                                  matchedBytes := take (size_of P) (drop k snap)\<rparr>)
             \<and> scanSingle heap (setUseBoyerMoore False sc) P start n res
                 = Inr (True, res\<lparr>address := start + of_nat k,
                                  patternName := m_name P,
                                  matchedBytes := take (size_of P) (drop k snap)\<rparr>)))
       \<and> (size_of P > length snap
            \<or> (\<forall>k \<le> length snap - size_of P. \<not> matches P (drop k snap)) \<longrightarrow>
            scanSingle heap (setUseBoyerMoore True sc) P start n res = Inr (False, res)
          \<and> scanSingle heap (setUseBoyerMoore False sc) P start n res = Inr (False, res)))"
proof (intro conjI impI)
  show "scanSingle heap (setUseBoyerMoore True sc) P start n res
     = scanSingle heap (setUseBoyerMoore False sc) P start n res"
    by (simp add: boyerMooreScan_def scanSingle_def setUseBoyerMoore_def split: option.splits)
next
  assume h: "Pattern_inv P \<and> 0 < size_of P
        \<and> m_memoryProvider sc = Some prov \<and> isValidAddress prov start
        \<and> readMemoryRegion heap prov start n = Inr snap"
    and "\<exists>k \<le> length snap - size_of P. size_of P \<le> length snap \<and> matches P (drop k snap)"
  then obtain k where le: "size_of P \<le> length snap"
    and k: "k \<le> length snap - size_of P" "matches P (drop k snap)" by blast
  from first_match_exists [OF k] obtain k' where
    k': "k' \<le> length snap - size_of P" "matches P (drop k' snap)"
        "\<forall>j < k'. \<not> matches P (drop j snap)"
    by blast
  from h le have ne: "snap \<noteq> []" by auto
  from h have rd: "readMemoryRegion heap prov start n = Inr snap" by simp
  have both: "scanSingle heap (setUseBoyerMoore b sc) P start n res
      = naiveScan heap prov P start n res" for b
    using h by (simp add: scanSingle_def boyerMooreScan_def setUseBoyerMoore_def)
  from naiveScan_hit [OF rd ne le k', of res] both k'
  show "\<exists>k \<le> length snap - size_of P.
             matches P (drop k snap) \<and> (\<forall>j < k. \<not> matches P (drop j snap))
             \<and> scanSingle heap (setUseBoyerMoore True sc) P start n res
                 = Inr (True, res\<lparr>address := start + of_nat k,
                                  patternName := m_name P,
                                  matchedBytes := take (size_of P) (drop k snap)\<rparr>)
             \<and> scanSingle heap (setUseBoyerMoore False sc) P start n res
                 = Inr (True, res\<lparr>address := start + of_nat k,
                                  patternName := m_name P,
                                  matchedBytes := take (size_of P) (drop k snap)\<rparr>)"
    by auto
next
  assume h: "Pattern_inv P \<and> 0 < size_of P
        \<and> m_memoryProvider sc = Some prov \<and> isValidAddress prov start
        \<and> readMemoryRegion heap prov start n = Inr snap"
    and m: "size_of P > length snap
            \<or> (\<forall>k \<le> length snap - size_of P. \<not> matches P (drop k snap))"
  from h have rd: "readMemoryRegion heap prov start n = Inr snap" by simp
  have both: "scanSingle heap (setUseBoyerMoore b sc) P start n res
      = naiveScan heap prov P start n res" for b
    using h by (simp add: scanSingle_def boyerMooreScan_def setUseBoyerMoore_def)
  have "naiveScan heap prov P start n res = Inr (False, res)"
    using m naiveScan_miss [OF rd, of P res] naiveScan_none [OF rd, of P res] by blast
  with both show "scanSingle heap (setUseBoyerMoore True sc) P start n res = Inr (False, res)"
    and "scanSingle heap (setUseBoyerMoore False sc) P start n res = Inr (False, res)"
    by simp_all
qed

theorem scan_algorithms_agree_witness:
  "scanSingle 4096 (setUseBoyerMoore True scenario_scanner)
        \<lparr>m_bytes = [0x8B, 0x05, 0, 0, 0, 0x12],
         m_mask = [True, True, False, False, False, True], m_name = ''health''\<rparr>
        0x400000 8 (PatternResult_ctor 0 [])
     = Inr (True, \<lparr>address = 0x400001, patternName = ''health'',
                   matchedBytes = [0x8B, 0x05, 0x78, 0x56, 0x34, 0x12]\<rparr>)
   \<and> scanSingle 4096 (setUseBoyerMoore False scenario_scanner)
        \<lparr>m_bytes = [0x8B, 0x05, 0, 0, 0, 0x12],
         m_mask = [True, True, False, False, False, True], m_name = ''health''\<rparr>
        0x400000 8 (PatternResult_ctor 0 [])
     = Inr (True, \<lparr>address = 0x400001, patternName = ''health'',
                   matchedBytes = [0x8B, 0x05, 0x78, 0x56, 0x34, 0x12]\<rparr>)
   \<and> scanSingle 4096 (setUseBoyerMoore True scenario_scanner)
        \<lparr>m_bytes = [0x05, 0x8B], m_mask = [True, True], m_name = ''absent''\<rparr>
        0x400000 4 (PatternResult_ctor 0 [])
     = Inr (False, PatternResult_ctor 0 [])
   \<and> scanSingle 4096 (setUseBoyerMoore False scenario_scanner)
        \<lparr>m_bytes = [0x05, 0x8B], m_mask = [True, True], m_name = ''absent''\<rparr>
        0x400000 4 (PatternResult_ctor 0 [])
     = Inr (False, PatternResult_ctor 0 [])"
proof -
  let ?P = "\<lparr>m_bytes = [0x8B, 0x05, 0, 0, 0, 0x12 :: byte],
             m_mask = [True, True, False, False, False, True], m_name = ''health''\<rparr>"
  let ?Q = "\<lparr>m_bytes = [0x05, 0x8B :: byte], m_mask = [True, True], m_name = ''absent''\<rparr>"
  let ?snap = "[0x90, 0x8B, 0x05, 0x78, 0x56, 0x34, 0x12, 0x90 :: byte]"
  let ?short = "[0x90, 0x8B, 0x05, 0x78 :: byte]"
  let ?res = "PatternResult_ctor 0 []"
  let ?hit = "Inr (True, \<lparr>address = 0x400001, patternName = ''health'',
                   matchedBytes = [0x8B, 0x05, 0x78, 0x56, 0x34, 0x12]\<rparr>) :: exn + bool \<times> PatternResult"
  have hP: "Pattern_inv ?P \<and> 0 < size_of ?P
        \<and> m_memoryProvider scenario_scanner = Some scenario_provider
        \<and> isValidAddress scenario_provider 0x400000
        \<and> readMemoryRegion 4096 scenario_provider 0x400000 8 = Inr ?snap"
    by (simp add: Pattern_inv_def size_of_def scenario_provider_simps scenario_snapshots)
  have hQ: "Pattern_inv ?Q \<and> 0 < size_of ?Q
        \<and> m_memoryProvider scenario_scanner = Some scenario_provider
        \<and> isValidAddress scenario_provider 0x400000
        \<and> readMemoryRegion 4096 scenario_provider 0x400000 4 = Inr ?short"
    by (simp add: Pattern_inv_def size_of_def scenario_provider_simps scenario_snapshots)
  have ex: "\<exists>k \<le> length ?snap - size_of ?P. size_of ?P \<le> length ?snap \<and> matches ?P (drop k ?snap)"
    using scenario_matches(2) by (intro exI [of _ 1]) (simp add: size_of_def)
  from scan_algorithms_agree [of 4096 scenario_scanner ?P "0x400000" 8 ?res scenario_provider ?snap]
    hP ex
  obtain k where k: "k \<le> length ?snap - size_of ?P" "matches ?P (drop k ?snap)"
      "\<forall>j < k. \<not> matches ?P (drop j ?snap)"
    and t: "scanSingle 4096 (setUseBoyerMoore True scenario_scanner) ?P 0x400000 8 ?res
        = Inr (True, ?res\<lparr>address := 0x400000 + of_nat k, patternName := m_name ?P,
                           matchedBytes := take (size_of ?P) (drop k ?snap)\<rparr>)"
    and f: "scanSingle 4096 (setUseBoyerMoore False scenario_scanner) ?P 0x400000 8 ?res
        = Inr (True, ?res\<lparr>address := 0x400000 + of_nat k, patternName := m_name ?P,
                           matchedBytes := take (size_of ?P) (drop k ?snap)\<rparr>)"
    by blast
  have "k = 1"
  proof -
    from k(1) have "k = 0 \<or> k = 1 \<or> k = 2" by (simp add: size_of_def) arith
    moreover from k(2) scenario_matches(1) have "k \<noteq> 0" by metis
    moreover from k(3) scenario_matches(2) have "\<not> 1 < k" by blast
    ultimately show ?thesis by auto
  qed
  with t f have r1: "scanSingle 4096 (setUseBoyerMoore True scenario_scanner) ?P 0x400000 8 ?res = ?hit"
    and r2: "scanSingle 4096 (setUseBoyerMoore False scenario_scanner) ?P 0x400000 8 ?res = ?hit"
    by (simp_all add: PatternResult_ctor_def size_of_def)
  have none: "\<forall>k \<le> length ?short - size_of ?Q. \<not> matches ?Q (drop k ?short)"
  proof (intro allI impI)
    fix k :: nat assume "k \<le> length ?short - size_of ?Q"
    then have "k = 0 \<or> k = 1 \<or> k = 2" by (simp add: size_of_def) arith
    with scenario_matches(3,4,5) show "\<not> matches ?Q (drop k ?short)" by blast
  qed
  from scan_algorithms_agree [of 4096 scenario_scanner ?Q "0x400000" 4 ?res scenario_provider ?short]
    hQ none
  have "scanSingle 4096 (setUseBoyerMoore True scenario_scanner) ?Q 0x400000 4 ?res = Inr (False, ?res)
      \<and> scanSingle 4096 (setUseBoyerMoore False scenario_scanner) ?Q 0x400000 4 ?res = Inr (False, ?res)"
    by blast
  with r1 r2 show ?thesis by simp
qed

section \<open>Parsing and printing patterns\<close>

lemma tokens_None: "extract_token iss = None \<Longrightarrow> tokens iss = []"
  by (subst tokens.simps) simp

lemma tokens_Some: "extract_token iss = Some (t, rest) \<Longrightarrow> tokens iss = t # tokens rest"
  by (subst tokens.simps) simp

lemma parse_loop_None: "extract_token iss = None \<Longrightarrow> parse_loop iss P = Inr P"
  by (subst parse_loop.simps) simp

lemma parse_loop_wildcard:
  "extract_token iss = Some (''??'', rest) \<Longrightarrow>
     parse_loop iss P
       = parse_loop rest (P\<lparr>m_bytes := m_bytes P @ [0x00], m_mask := m_mask P @ [False]\<rparr>)"
  by (subst parse_loop.simps) simp

lemma parse_loop_byte:
  "extract_token iss = Some (t, rest) \<Longrightarrow> t \<noteq> ''??'' \<Longrightarrow> stoul16 t = Inr v \<Longrightarrow>
     parse_loop iss P
       = parse_loop rest (P\<lparr>m_bytes := m_bytes P @ [ucast v], m_mask := m_mask P @ [True]\<rparr>)"
  by (subst parse_loop.simps) simp

lemma parse_loop_invalid:
  "extract_token iss = Some (t, rest) \<Longrightarrow> t \<noteq> ''??'' \<Longrightarrow> stoul16 t = Inl e \<Longrightarrow>
     parse_loop iss P = Inl (invalid_argument (''Invalid pattern token: '' @ t))"
  by (subst parse_loop.simps) simp

lemma parse_loop_accepts:
  "(\<forall>t \<in> set (tokens iss). token_accepted t) \<Longrightarrow>
     parse_loop iss P
       = Inr (P\<lparr>m_bytes := m_bytes P @ map token_byte (tokens iss),
                 m_mask := m_mask P @ map (\<lambda>t. t \<noteq> ''??'') (tokens iss)\<rparr>)"
proof (induction iss P rule: parse_loop.induct)
  case (1 iss P)
  show ?case
  proof (cases "extract_token iss")
    case None
    then show ?thesis by (simp add: parse_loop_None tokens_None)
  next
    case (Some x2)
    obtain t rest where x2: "x2 = (t, rest)" by (cases x2)
    with Some have ex: "extract_token iss = Some (t, rest)" by simp
    have toks: "tokens iss = t # tokens rest" by (rule tokens_Some [OF ex])
    with "1.prems" have acc: "token_accepted t"
      and rest_acc: "\<forall>t \<in> set (tokens rest). token_accepted t" by simp_all
    show ?thesis
    proof (cases "t = ''??''")
      case True
      from "1.IH"(1) [OF Some x2 [symmetric] True rest_acc] ex True toks
      show ?thesis by (simp add: parse_loop_wildcard token_byte_def)
    next
      case False
      with acc obtain v where v: "stoul16 t = Inr v"
        by (cases "stoul16 t") (auto simp: token_accepted_def)
      from "1.IH"(2) [OF Some x2 [symmetric] False v rest_acc] ex False toks v
      show ?thesis by (simp add: parse_loop_byte token_byte_def)
    qed
  qed
qed

lemma parse_loop_rejects:
  "(\<exists>t \<in> set (tokens iss). \<not> token_accepted t) \<Longrightarrow>
     (\<exists>t \<in> set (tokens iss). \<not> token_accepted t
        \<and> parse_loop iss P = Inl (invalid_argument (''Invalid pattern token: '' @ t)))"
proof (induction iss P rule: parse_loop.induct)
  case (1 iss P)
  show ?case
  proof (cases "extract_token iss")
    case None
    with "1.prems" show ?thesis by (simp add: tokens_None)
  next
    case (Some x2)
    obtain t rest where x2: "x2 = (t, rest)" by (cases x2)
    with Some have ex: "extract_token iss = Some (t, rest)" by simp
    have toks: "tokens iss = t # tokens rest" by (rule tokens_Some [OF ex])
    show ?thesis
    proof (cases "token_accepted t")
      case acc: True
      with "1.prems" toks have rest_rej: "\<exists>t \<in> set (tokens rest). \<not> token_accepted t" by simp
      show ?thesis
      proof (cases "t = ''??''")
        case True
        from "1.IH"(1) [OF Some x2 [symmetric] True rest_rej] ex True toks
        show ?thesis by (auto simp: parse_loop_wildcard)
      next
        case False
        with acc obtain v where v: "stoul16 t = Inr v"
          by (cases "stoul16 t") (auto simp: token_accepted_def)
        from "1.IH"(2) [OF Some x2 [symmetric] False v rest_rej] ex False toks v
        show ?thesis by (auto simp: parse_loop_byte)
      qed
    next
      case False
      then have ne: "t \<noteq> ''??''" by (auto simp: token_accepted_def)
      from False obtain e where "stoul16 t = Inl e"
        by (cases "stoul16 t") (auto simp: token_accepted_def)
      from parse_loop_invalid [OF ex ne this] False toks show ?thesis by auto
    qed
  qed
qed

lemma Pattern_of_string_accepts:
  assumes "\<forall>t \<in> set (tokens s). token_accepted t"
  shows "Pattern_of_string s nm =
           (if tokens s = [] then Inl (invalid_argument ''Pattern string cannot be empty'')
            else Inr \<lparr>m_bytes = map token_byte (tokens s),
                      m_mask = map (\<lambda>t. t \<noteq> ''??'') (tokens s), m_name = nm\<rparr>)"
  by (simp add: Pattern_of_string_def parsePatternString_def parse_loop_accepts [OF assms])

lemma Pattern_of_string_rejects:
  assumes "\<exists>t \<in> set (tokens s). \<not> token_accepted t"
  shows "\<exists>t \<in> set (tokens s). \<not> token_accepted t
           \<and> Pattern_of_string s nm = Inl (invalid_argument (''Invalid pattern token: '' @ t))"
  using parse_loop_rejects [OF assms, of "\<lparr>m_bytes = [], m_mask = [], m_name = nm\<rparr>"]
  by (auto simp: Pattern_of_string_def parsePatternString_def)


lemma isxdigit_plain:
  assumes "isxdigit c"
  shows "\<not> isspace c" and "c \<noteq> CHR ''-''" and "c \<noteq> CHR ''+''" and "c \<noteq> CHR ''?''"
    and "digit_value c < 16"
  using assms by (auto simp: isxdigit_def isspace_def digit_value_def)

lemma stoul16_hex_pair:
  assumes "isxdigit a" and "isxdigit b"
  shows "stoul16 [a, b] = Inr (of_nat (digit_value a * 16 + digit_value b))"
proof -
  have "int (digit_value a) * 16 + int (digit_value b) \<le> ULONG_MAX"
    using isxdigit_plain(5) [OF assms(1)] isxdigit_plain(5) [OF assms(2)]
    by (simp add: ULONG_MAX_def)
  then show ?thesis
    using assms isxdigit_plain(1,2,3) [OF assms(1)]
    by (simp add: stoul16_def Let_def)
qed

lemma grammar_token_accepted: "grammar_token t \<Longrightarrow> token_accepted t"
proof -
  assume g: "grammar_token t"
  show ?thesis
  proof (cases "t = ''??''")
    case True
    then show ?thesis by (simp add: token_accepted_def)
  next
    case False
    with g have len: "length t = 2" and hex: "\<forall>c \<in> set t. isxdigit c"
      by (simp_all add: grammar_token_def)
    from len obtain a b where t: "t = [a, b]"
      by (cases t; cases "tl t") auto
    with hex have "isxdigit a" "isxdigit b" by simp_all
    from stoul16_hex_pair [OF this] t show ?thesis by (simp add: token_accepted_def)
  qed
qed

lemma token_byte_hex_pair:
  assumes "isxdigit a" and "isxdigit b"
  shows "token_byte [a, b] = of_nat (digit_value a * 16 + digit_value b)"
proof -
  have down: "is_down (ucast :: ulong \<Rightarrow> byte)" by (simp add: is_down)
  have ne: "a \<noteq> CHR ''?''" by (rule isxdigit_plain(4) [OF assms(1)])
  have uc: "ucast (of_nat (digit_value a * 16 + digit_value b) :: ulong)
      = (of_nat (digit_value a * 16 + digit_value b) :: byte)"
    using ucast_down_wi [OF down, of "int (digit_value a * 16 + digit_value b)"] by simp
  have "token_byte [a, b] = ucast (of_nat (digit_value a * 16 + digit_value b) :: ulong)"
    using ne by (simp add: token_byte_def stoul16_hex_pair [OF assms])
  with uc show ?thesis by simp
qed

text \<open>
  What the loop does with a token is decided by \<^verbatim>\<open>stoul\<close> alone: the constructor fails
  exactly when there is no token or \<^verbatim>\<open>stoul\<close> throws on some token other than \<^verbatim>\<open>??\<close>.
\<close>

lemma Pattern_of_string_fails_iff:
  "isl (Pattern_of_string s nm) \<longleftrightarrow>
      tokens s = [] \<or> (\<exists>t \<in> set (tokens s). t \<noteq> ''??'' \<and> isl (stoul16 t))"
proof (cases "\<forall>t \<in> set (tokens s). token_accepted t")
  case True
  from Pattern_of_string_accepts [OF True, of nm] True show ?thesis
    by (auto simp: token_accepted_def)
next
  case False
  then have rej: "\<exists>t \<in> set (tokens s). \<not> token_accepted t" by simp
  from Pattern_of_string_rejects [OF rej, of nm] rej show ?thesis
    by (auto simp: token_accepted_def)
qed

lemma tokens_plain:
  "t \<in> set (tokens iss) \<Longrightarrow> t \<noteq> [] \<and> (\<forall>c \<in> set t. \<not> isspace c)"
proof (induction iss rule: tokens.induct)
  case (1 iss)
  show ?case
  proof (cases "extract_token iss")
    case None
    with "1.prems" show ?thesis by (simp add: tokens_None)
  next
    case (Some x2)
    obtain tok rest where x2: "x2 = (tok, rest)" by (cases x2)
    with Some have ex: "extract_token iss = Some (tok, rest)" by simp
    let ?s = "dropWhile isspace iss"
    from ex have ne: "?s \<noteq> []" and tok: "tok = takeWhile (\<lambda>c. \<not> isspace c) ?s"
      by (auto simp: extract_token_def Let_def split: if_splits)
    from ne have "\<not> isspace (hd ?s)" by (rule hd_dropWhile)
    with ne have "tok \<noteq> []" unfolding tok by (cases ?s) auto
    moreover have "\<forall>c \<in> set tok. \<not> isspace c"
      unfolding tok by (auto dest: set_takeWhileD)
    moreover from "1.prems" tokens_Some [OF ex] have "t = tok \<or> t \<in> set (tokens rest)" by simp
    ultimately show ?thesis using "1.IH" [OF Some x2 [symmetric]] by blast
  qed
qed

lemma takeWhile_skip_0x:
  "takeWhile isxdigit (skip_0x s) = [] \<longleftrightarrow> takeWhile isxdigit s = []"
  by (induction s rule: skip_0x.induct) (auto simp: isxdigit_def)

lemma stoul16_no_hex:
  assumes "t \<noteq> []" and "\<forall>c \<in> set t. \<not> isspace c" and "\<not> begins_with_hex_number t"
  shows "stoul16 t = Inl (invalid_argument ''stoul'')"
proof -
  obtain c r where t: "t = c # r" using assms(1) by (cases t) auto
  with assms(2) have s1: "dropWhile isspace t = t" by simp
  from assms(3) have "takeWhile isxdigit (skip_sign t) = []"
    by (cases "skip_sign t") (auto simp: begins_with_hex_number_def)
  then have "takeWhile isxdigit (skip_0x (skip_sign t)) = []"
    by (simp only: takeWhile_skip_0x)
  then show ?thesis
    by (simp add: stoul16_def Let_def s1)
qed

text \<open>
  C3, as the code has it. The constructor from a string fails with
  \<^verbatim>\<open>std::invalid_argument\<close> when the string has no whitespace-delimited token, and when
  some token other than \<^verbatim>\<open>??\<close> does not begin, after an optional sign, with a hexadecimal
  digit. Every string with at least one token whose tokens all match \<^verbatim>\<open>[0-9A-Fa-f]{2}\<close>
  or \<^verbatim>\<open>??\<close> parses successfully: one position per token, mask false and byte 0 for
  \<^verbatim>\<open>??\<close>, mask true and the value of the two digits otherwise. Nothing is said here
  about the other tokens that begin with a hexadecimal digit.
\<close>

theorem parse_outcomes:
  "(tokens s = [] \<longrightarrow>
      Pattern_of_string s nm = Inl (invalid_argument ''Pattern string cannot be empty''))
   \<and> ((\<exists>t \<in> set (tokens s). t \<noteq> ''??'' \<and> \<not> begins_with_hex_number t) \<longrightarrow>
        (\<exists>t \<in> set (tokens s).
           Pattern_of_string s nm = Inl (invalid_argument (''Invalid pattern token: '' @ t))))
   \<and> (tokens s \<noteq> [] \<and> (\<forall>t \<in> set (tokens s). grammar_token t) \<longrightarrow>
         Pattern_of_string s nm
           = Inr \<lparr>m_bytes = map token_byte (tokens s),
                  m_mask = map (\<lambda>t. t \<noteq> ''??'') (tokens s), m_name = nm\<rparr>)
   \<and> (\<forall>a b. isxdigit a \<and> isxdigit b \<longrightarrow>
         token_byte [a, b] = of_nat (digit_value a * 16 + digit_value b))"
proof (intro conjI allI impI)
  assume "tokens s = []"
  then show "Pattern_of_string s nm = Inl (invalid_argument ''Pattern string cannot be empty'')"
    using Pattern_of_string_accepts [of s nm] by simp
next
  assume "\<exists>t \<in> set (tokens s). t \<noteq> ''??'' \<and> \<not> begins_with_hex_number t"
  then obtain t where t: "t \<in> set (tokens s)" "t \<noteq> ''??''" "\<not> begins_with_hex_number t"
    by blast
  from tokens_plain [OF t(1)] t(3) have "stoul16 t = Inl (invalid_argument ''stoul'')"
    by (simp add: stoul16_no_hex)
  with t have "\<exists>t \<in> set (tokens s). \<not> token_accepted t"
    by (auto simp: token_accepted_def)
  from Pattern_of_string_rejects [OF this, of nm]
  show "\<exists>t \<in> set (tokens s).
           Pattern_of_string s nm = Inl (invalid_argument (''Invalid pattern token: '' @ t))"
    by blast
next
  assume g: "tokens s \<noteq> [] \<and> (\<forall>t \<in> set (tokens s). grammar_token t)"
  then have "\<forall>t \<in> set (tokens s). token_accepted t"
    by (simp add: grammar_token_accepted)
  from Pattern_of_string_accepts [OF this, of nm] g
  show "Pattern_of_string s nm
           = Inr \<lparr>m_bytes = map token_byte (tokens s),
                  m_mask = map (\<lambda>t. t \<noteq> ''??'') (tokens s), m_name = nm\<rparr>"
    by simp
next
  fix a b assume "isxdigit a \<and> isxdigit b"
  then show "token_byte [a, b] = of_nat (digit_value a * 16 + digit_value b)"
    by (simp add: token_byte_hex_pair)
qed

lemma tokens_examples:
  "tokens ''48 8B ?? 05'' = [''48'', ''8B'', ''??'', ''05'']"
  "tokens ''48 ? 05'' = [''48'', ''?'', ''05'']"
  "tokens ''   '' = []"
  by (simp_all add: tokens.simps extract_token_def isspace_def)

theorem parse_outcomes_witness:
  "tokens ''   '' = []
   \<and> Pattern_of_string ''   '' ''n'' = Inl (invalid_argument ''Pattern string cannot be empty'')
   \<and> ''?'' \<in> set (tokens ''48 ? 05'') \<and> ''?'' \<noteq> ''??'' \<and> \<not> begins_with_hex_number ''?''
   \<and> isl (Pattern_of_string ''48 ? 05'' ''n'')
   \<and> tokens ''48 8B ?? 05'' = [''48'', ''8B'', ''??'', ''05'']
   \<and> grammar_token ''48'' \<and> grammar_token ''8B'' \<and> grammar_token ''??'' \<and> grammar_token ''05''
   \<and> Pattern_of_string ''48 8B ?? 05'' ''n''
       = Inr \<lparr>m_bytes = [0x48, 0x8B, 0x00, 0x05], m_mask = [True, True, False, True], m_name = ''n''\<rparr>"
proof -
  let ?s = "''48 8B ?? 05''"
  have e: "tokens ''   '' = []" by (simp add: tokens_examples)
  from parse_outcomes [of "''   ''" "''n''"] e
  have r1: "Pattern_of_string ''   '' ''n'' = Inl (invalid_argument ''Pattern string cannot be empty'')"
    by blast
  have b: "''?'' \<in> set (tokens ''48 ? 05'') \<and> ''?'' \<noteq> ''??'' \<and> \<not> begins_with_hex_number ''?''"
    by (simp add: tokens_examples begins_with_hex_number_def isxdigit_def)
  then have "\<exists>t \<in> set (tokens ''48 ? 05''). t \<noteq> ''??'' \<and> \<not> begins_with_hex_number t"
    by blast
  with parse_outcomes [of "''48 ? 05''" "''n''"]
  have "\<exists>t \<in> set (tokens ''48 ? 05'').
           Pattern_of_string ''48 ? 05'' ''n'' = Inl (invalid_argument (''Invalid pattern token: '' @ t))"
    by blast
  then have r2: "isl (Pattern_of_string ''48 ? 05'' ''n'')" by auto
  have g: "tokens ?s \<noteq> [] \<and> (\<forall>t \<in> set (tokens ?s). grammar_token t)"
    by (simp add: tokens_examples grammar_token_def isxdigit_def)
  have x: "isxdigit CHR ''4''" "isxdigit CHR ''8''" "isxdigit CHR ''B''" "isxdigit CHR ''0''"
    "isxdigit CHR ''5''"
    by (simp_all add: isxdigit_def)
  note inst = parse_outcomes [of ?s "''n''"]
  from inst g have "Pattern_of_string ?s ''n''
           = Inr \<lparr>m_bytes = map token_byte (tokens ?s),
                  m_mask = map (\<lambda>t. t \<noteq> ''??'') (tokens ?s), m_name = ''n''\<rparr>"
    by blast
  moreover from inst x have "token_byte ''48'' = of_nat (digit_value CHR ''4'' * 16 + digit_value CHR ''8'')"
    "token_byte ''8B'' = of_nat (digit_value CHR ''8'' * 16 + digit_value CHR ''B'')"
    "token_byte ''05'' = of_nat (digit_value CHR ''0'' * 16 + digit_value CHR ''5'')"
    by blast+
  ultimately have r3: "Pattern_of_string ?s ''n''
       = Inr \<lparr>m_bytes = [0x48, 0x8B, 0x00, 0x05], m_mask = [True, True, False, True], m_name = ''n''\<rparr>"
    by (simp add: tokens_examples digit_value_def token_byte_def)
  have g': "grammar_token ''48'' \<and> grammar_token ''8B'' \<and> grammar_token ''??'' \<and> grammar_token ''05''"
    by (simp add: grammar_token_def isxdigit_def)
  from e r1 b r2 g' r3 tokens_examples(1) show ?thesis by blast
qed

text \<open>
  C3, a concrete run. The string \<^verbatim>\<open>4\<close> has one token, which is not two hexadecimal
  digits and not \<^verbatim>\<open>??\<close>; the constructor accepts it as the byte \<open>0x04\<close>.
\<close>

theorem single_digit_token_accepted:
  "tokens ''4'' = [''4''] \<and> \<not> grammar_token ''4''
   \<and> Pattern_of_string ''4'' [] = Inr \<lparr>m_bytes = [0x04], m_mask = [True], m_name = []\<rparr>"
  by (simp add: tokens.simps extract_token_def isspace_def grammar_token_def
      Pattern_of_string_def parsePatternString_def parse_loop.simps stoul16_def Let_def
      isxdigit_def digit_value_def ULONG_MAX_def)

lemma hex_digit_props:
  assumes "d < 16"
  shows "isxdigit (hex_digit d) \<and> digit_value (hex_digit d) = d"
proof -
  from assms have "d = 0 \<or> d = 1 \<or> d = 2 \<or> d = 3 \<or> d = 4 \<or> d = 5 \<or> d = 6 \<or> d = 7
      \<or> d = 8 \<or> d = 9 \<or> d = 10 \<or> d = 11 \<or> d = 12 \<or> d = 13 \<or> d = 14 \<or> d = 15"
    by arith
  then show ?thesis
    by (elim disjE) (simp_all add: hex_digit_def isxdigit_def digit_value_def)
qed

lemma put_hex_w2_byte:
  assumes "n < 256"
  shows "put_hex_w2 n = [hex_digit (n div 16), hex_digit (n mod 16)]"
proof (cases "n < 16")
  case True
  then have "to_hex n = [hex_digit n]" by (subst to_hex.simps) simp
  with True show ?thesis by (simp add: put_hex_w2_def hex_digit_def)
next
  case False
  from assms have "n div 16 < 16" by simp
  then have "to_hex (n div 16) = [hex_digit (n div 16)]" by (subst to_hex.simps) simp
  with False have "to_hex n = [hex_digit (n div 16), hex_digit (n mod 16)]"
    by (subst to_hex.simps) simp
  then show ?thesis by (simp add: put_hex_w2_def)
qed

lemma put_hex_w2_token:
  fixes b :: byte
  shows "grammar_token (put_hex_w2 (unat b))"
    and "put_hex_w2 (unat b) \<noteq> ''??''"
    and "token_byte (put_hex_w2 (unat b)) = b"
proof -
  let ?n = "unat b"
  have "?n < 2 ^ LENGTH(8)" by (rule unsigned_less)
  then have n: "?n < 256" by simp
  then have hi: "?n div 16 < 16" by simp
  have lo: "?n mod 16 < 16" by simp
  note eq = put_hex_w2_byte [OF n]
  note xhi = hex_digit_props [OF hi, THEN conjunct1]
  note xlo = hex_digit_props [OF lo, THEN conjunct1]
  note vhi = hex_digit_props [OF hi, THEN conjunct2]
  note vlo = hex_digit_props [OF lo, THEN conjunct2]
  show "grammar_token (put_hex_w2 ?n)"
    by (simp add: eq grammar_token_def xhi xlo)
  show "put_hex_w2 ?n \<noteq> ''??''"
    using isxdigit_plain(4) [OF xhi] by (simp add: eq)
  have "token_byte (put_hex_w2 ?n) = of_nat (?n div 16 * 16 + ?n mod 16)"
    by (simp add: eq token_byte_hex_pair [OF xhi xlo] vhi vlo)
  also have "?n div 16 * 16 + ?n mod 16 = ?n" by simp
  finally show "token_byte (put_hex_w2 ?n) = b" by simp
qed

lemma toString_token_props:
  "grammar_token (toString_token P j)"
  "toString_token P j \<noteq> ''??'' \<longleftrightarrow> m_mask P ! j"
  "token_byte (toString_token P j) = (if m_mask P ! j then m_bytes P ! j else 0)"
proof -
  show "grammar_token (toString_token P j)"
    by (cases "m_mask P ! j") (simp_all add: toString_token_def put_hex_w2_token(1), simp add: grammar_token_def)
  show "toString_token P j \<noteq> ''??'' \<longleftrightarrow> m_mask P ! j"
    by (cases "m_mask P ! j") (simp_all add: toString_token_def put_hex_w2_token(2))
  show "token_byte (toString_token P j) = (if m_mask P ! j then m_bytes P ! j else 0)"
    by (cases "m_mask P ! j") (simp_all add: toString_token_def put_hex_w2_token(3), simp add: token_byte_def)
qed

lemma grammar_token_plain:
  assumes "grammar_token t"
  shows "t \<noteq> []" and "\<forall>c \<in> set t. \<not> isspace c"
proof -
  from assms show "t \<noteq> []" by (auto simp: grammar_token_def)
  have q: "\<not> isspace CHR ''?''" by (simp add: isspace_def)
  show "\<forall>c \<in> set t. \<not> isspace c"
  proof (cases "t = ''??''")
    case True
    with q show ?thesis by simp
  next
    case False
    with assms have "\<forall>c \<in> set t. isxdigit c" by (simp add: grammar_token_def)
    then show ?thesis using isxdigit_plain(1) by blast
  qed
qed


lemma toString_from_eq:
  "toString_from P i oss =
     oss @ concat (map (\<lambda>j. (if j > 0 then '' '' else []) @ toString_token P j) [i ..< length (m_bytes P)])"
proof (induction P i oss rule: toString_from.induct)
  case (1 P i oss)
  show ?case
  proof (cases "i < length (m_bytes P)")
    case True
    then have "toString_from P i oss
        = toString_from P (i + 1) (oss @ (if i > 0 then '' '' else []) @ toString_token P i)"
      by (subst toString_from.simps) (simp add: toString_token_def)
    also have "\<dots> = (oss @ (if i > 0 then '' '' else []) @ toString_token P i)
        @ concat (map (\<lambda>j. (if j > 0 then '' '' else []) @ toString_token P j) [i + 1 ..< length (m_bytes P)])"
      using "1.IH" [OF True] by (simp add: toString_token_def)
    also have "\<dots> = oss @ concat (map (\<lambda>j. (if j > 0 then '' '' else []) @ toString_token P j)
                                   [i ..< length (m_bytes P)])"
      using True by (simp add: upt_conv_Cons)
    finally show ?thesis .
  next
    case False
    then show ?thesis by (subst toString_from.simps) simp
  qed
qed

lemma tokens_cong: "extract_token x = extract_token y \<Longrightarrow> tokens x = tokens y"
  using tokens.simps [of x] tokens.simps [of y] by simp

lemma tokens_space: "tokens (CHR '' '' # s) = tokens s"
  by (rule tokens_cong) (simp add: extract_token_def isspace_def)

lemma extract_token_plain:
  assumes "t \<noteq> []" and "\<forall>c \<in> set t. \<not> isspace c" and "rest = [] \<or> isspace (hd rest)"
  shows "extract_token (t @ rest) = Some (t, rest)"
proof -
  obtain c r where t: "t = c # r" using assms(1) by (cases t) auto
  with assms(2) have d: "dropWhile isspace (t @ rest) = t @ rest" by simp
  from assms(3) have tr: "takeWhile (\<lambda>c. \<not> isspace c) rest = []"
    and dr: "dropWhile (\<lambda>c. \<not> isspace c) rest = rest"
    by (cases rest; simp)+
  from assms(2) have "takeWhile (\<lambda>c. \<not> isspace c) (t @ rest) = t @ takeWhile (\<lambda>c. \<not> isspace c) rest"
    by (simp add: takeWhile_append2)
  moreover from assms(2) have "dropWhile (\<lambda>c. \<not> isspace c) (t @ rest) = dropWhile (\<lambda>c. \<not> isspace c) rest"
    by (simp add: dropWhile_append2)
  ultimately show ?thesis
    using assms(1) tr dr by (simp add: extract_token_def d)
qed

lemma tokens_joined:
  assumes "\<forall>t \<in> set ts. grammar_token t"
  shows "tokens (concat (map (\<lambda>t. '' '' @ t) ts)) = ts"
  using assms
proof (induction ts)
  case Nil
  show ?case by (simp add: tokens_None extract_token_def)
next
  case (Cons t ts)
  let ?rest = "concat (map (\<lambda>t. '' '' @ t) ts)"
  have rest: "?rest = [] \<or> isspace (hd ?rest)"
    by (cases ts) (simp_all add: isspace_def)
  from Cons.prems have g: "grammar_token t" by simp
  from extract_token_plain [OF grammar_token_plain [OF g] rest]
  have "tokens (t @ ?rest) = t # tokens ?rest" by (rule tokens_Some)
  with Cons show ?case by (simp add: tokens_space)
qed

lemma tokens_joined_first:
  assumes "grammar_token t" and "\<forall>t \<in> set ts. grammar_token t"
  shows "tokens (t @ concat (map (\<lambda>t. '' '' @ t) ts)) = t # ts"
proof -
  let ?rest = "concat (map (\<lambda>t. '' '' @ t) ts)"
  have rest: "?rest = [] \<or> isspace (hd ?rest)"
    by (cases ts) (simp_all add: isspace_def)
  from extract_token_plain [OF grammar_token_plain [OF assms(1)] rest]
  have "tokens (t @ ?rest) = t # tokens ?rest" by (rule tokens_Some)
  with tokens_joined [OF assms(2)] show ?thesis by simp
qed

lemma tokens_toString:
  assumes "m_bytes P \<noteq> []"
  shows "tokens (toString P) = map (toString_token P) [0 ..< length (m_bytes P)]"
proof -
  let ?n = "length (m_bytes P)"
  from assms have n: "0 < ?n" by simp
  then have upt: "[0 ..< ?n] = 0 # [1 ..< ?n]" by (simp add: upt_conv_Cons)
  have sep: "map (\<lambda>j. (if j > 0 then '' '' else []) @ toString_token P j) [1 ..< ?n]
      = map (\<lambda>t. '' '' @ t) (map (toString_token P) [1 ..< ?n])"
    by (rule nth_equalityI) simp_all
  have "toString P = concat (map (\<lambda>j. (if j > 0 then '' '' else []) @ toString_token P j) (0 # [1 ..< ?n]))"
    by (simp only: toString_def toString_from_eq upt append_Nil)
  also have "\<dots> = toString_token P 0 @ concat (map (\<lambda>j. (if j > 0 then '' '' else []) @ toString_token P j) [1 ..< ?n])"
    by simp
  finally have "toString P = toString_token P 0 @ concat (map (\<lambda>t. '' '' @ t) (map (toString_token P) [1 ..< ?n]))"
    by (simp only: sep)
  moreover have "tokens (toString_token P 0 @ concat (map (\<lambda>t. '' '' @ t) (map (toString_token P) [1 ..< ?n])))
      = toString_token P 0 # map (toString_token P) [1 ..< ?n]"
    by (rule tokens_joined_first) (simp_all add: toString_token_props(1))
  ultimately show ?thesis by (simp add: upt)
qed

lemma Pattern_of_string_toString:
  assumes "Pattern_inv P" and "m_bytes P \<noteq> []"
  shows "Pattern_of_string (toString P) nm
           = Inr \<lparr>m_bytes = map2 (\<lambda>b fixed. if fixed then b else 0) (m_bytes P) (m_mask P),
                  m_mask = m_mask P, m_name = nm\<rparr>"
proof -
  let ?n = "length (m_bytes P)"
  note toks = tokens_toString [OF assms(2)]
  have len: "length (m_mask P) = ?n" using assms(1) by (simp add: Pattern_inv_def)
  have acc: "\<forall>t \<in> set (tokens (toString P)). token_accepted t"
    by (auto simp: toks toString_token_props(1) grammar_token_accepted)
  have ne: "tokens (toString P) \<noteq> []" using assms(2) by (simp add: toks)
  have bytes: "map token_byte (tokens (toString P))
      = map2 (\<lambda>b fixed. if fixed then b else 0) (m_bytes P) (m_mask P)"
    by (rule nth_equalityI) (simp_all add: toks len toString_token_props(3))
  have msk: "map (\<lambda>t. t \<noteq> ''??'') (tokens (toString P)) = m_mask P"
    by (rule nth_equalityI) (simp_all add: toks len toString_token_props(2))
  from Pattern_of_string_accepts [OF acc, of nm] ne bytes msk show ?thesis by simp
qed


text \<open>
  C4, as the code has it. For every pattern with equally long vectors and at least one
  position, however constructed, parsing \<open>toString P\<close> succeeds and gives the same mask
  and the same byte at every fixed position; every wildcard position comes back with
  the byte \<open>0x00\<close>. So the byte sequence is reproduced whenever the wildcard positions
  of \<open>P\<close> hold \<open>0x00\<close>, as they do in every pattern made by the parser.
\<close>

theorem toString_reparse:
  assumes "Pattern_inv P" and "m_bytes P \<noteq> []"
  shows "Pattern_of_string (toString P) nm
           = Inr \<lparr>m_bytes = map2 (\<lambda>b fixed. if fixed then b else 0) (m_bytes P) (m_mask P),
                  m_mask = m_mask P, m_name = nm\<rparr>
       \<and> ((\<forall>i < size_of P. \<not> m_mask P ! i \<longrightarrow> m_bytes P ! i = 0) \<longrightarrow>
             Pattern_of_string (toString P) nm = Inr (P\<lparr>m_name := nm\<rparr>))"
proof (intro conjI impI)
  show r: "Pattern_of_string (toString P) nm
           = Inr \<lparr>m_bytes = map2 (\<lambda>b fixed. if fixed then b else 0) (m_bytes P) (m_mask P),
                  m_mask = m_mask P, m_name = nm\<rparr>"
    by (rule Pattern_of_string_toString [OF assms])
  assume z: "\<forall>i < size_of P. \<not> m_mask P ! i \<longrightarrow> m_bytes P ! i = 0"
  have len: "length (m_mask P) = length (m_bytes P)" using assms(1) by (simp add: Pattern_inv_def)
  have "map2 (\<lambda>b fixed. if fixed then b else 0) (m_bytes P) (m_mask P) = m_bytes P"
    using z by (intro nth_equalityI) (auto simp: len size_of_def)
  with r show "Pattern_of_string (toString P) nm = Inr (P\<lparr>m_name := nm\<rparr>)"
    by simp
qed

theorem toString_reparse_witness:
  "Pattern_inv \<lparr>m_bytes = [0x48, 0x0B, 0x55], m_mask = [True, True, False], m_name = ''w''\<rparr>
   \<and> m_bytes \<lparr>m_bytes = [0x48, 0x0B, 0x55], m_mask = [True, True, False], m_name = ''w''\<rparr> \<noteq> []
   \<and> Pattern_of_string
        (toString \<lparr>m_bytes = [0x48, 0x0B, 0x55], m_mask = [True, True, False], m_name = ''w''\<rparr>) ''n''
       = Inr \<lparr>m_bytes = [0x48, 0x0B, 0x00], m_mask = [True, True, False], m_name = ''n''\<rparr>
   \<and> Pattern_of_string
        (toString \<lparr>m_bytes = [0x48, 0x00, 0xEC], m_mask = [True, False, True], m_name = ''w''\<rparr>) ''n''
       = Inr \<lparr>m_bytes = [0x48, 0x00, 0xEC], m_mask = [True, False, True], m_name = ''n''\<rparr>"
proof -
  let ?P = "\<lparr>m_bytes = [0x48, 0x0B, 0x55 :: byte], m_mask = [True, True, False], m_name = ''w''\<rparr>"
  let ?Q = "\<lparr>m_bytes = [0x48, 0x00, 0xEC :: byte], m_mask = [True, False, True], m_name = ''w''\<rparr>"
  have inv: "Pattern_inv ?P" by (simp add: Pattern_inv_def)
  have ne: "m_bytes ?P \<noteq> []" by simp
  have invQ: "Pattern_inv ?Q" by (simp add: Pattern_inv_def)
  have neQ: "m_bytes ?Q \<noteq> []" by simp
  have zero: "\<forall>i < size_of ?Q. \<not> m_mask ?Q ! i \<longrightarrow> m_bytes ?Q ! i = 0"
    by (simp add: size_of_def nth_Cons' less_Suc_eq numeral_eq_Suc)
  from toString_reparse [OF inv ne, of "''n''"]
  have r1: "Pattern_of_string (toString ?P) ''n''
       = Inr \<lparr>m_bytes = [0x48, 0x0B, 0x00], m_mask = [True, True, False], m_name = ''n''\<rparr>"
    by simp
  from toString_reparse [OF invQ neQ, of "''n''"] zero
  have "Pattern_of_string (toString ?Q) ''n'' = Inr (?Q\<lparr>m_name := ''n''\<rparr>)" by blast
  with inv r1 show ?thesis by simp
qed

text \<open>
  C4, a concrete run. The byte and mask constructor accepts a wildcard position with
  the byte \<open>0x55\<close>; \<^verbatim>\<open>toString\<close> writes \<^verbatim>\<open>??\<close> for it, and parsing that gives the byte
  \<open>0x00\<close>: the byte sequence is not the same.
\<close>

theorem wildcard_byte_not_reproduced:
  "Pattern_of_bytes [0x55] [False] [] = Inr \<lparr>m_bytes = [0x55], m_mask = [False], m_name = []\<rparr>
   \<and> toString \<lparr>m_bytes = [0x55], m_mask = [False], m_name = []\<rparr> = ''??''
   \<and> Pattern_of_string ''??'' [] = Inr \<lparr>m_bytes = [0x00], m_mask = [False], m_name = []\<rparr>
   \<and> [0x00 :: byte] \<noteq> [0x55]"
  by (simp add: Pattern_of_bytes_def toString_def toString_from.simps
      Pattern_of_string_def parsePatternString_def parse_loop.simps extract_token_def isspace_def)

end
